theory Spec2Isabelle
  imports Complex_Main "HOL-Library.Char_ord" "HOL-Library.List_Lexorder" "HOL-Library.Log_Nat"
begin

section \<open>Tile resolution and acquisition of geodo/core.py\<close>

text \<open>
  The development embeds the zone indexers (\<open>srtm_zone\<close>, \<open>dem3_viewpano_zone\<close>,
  \<open>aster_zone\<close>), the per-tile download functions and the source selection of
  \<open>get_topo_file\<close>.

  Conventions of the embedding.
  \<^item> Python floats are IEEE 754 double precision numbers. A double is the rational it
    denotes (\<open>rat\<close>), and every float operation of the source (\<open>+\<close>, \<open>-\<close>, \<open>*\<close>, \<open>/\<close>) is the
    exact operation followed by the rounding \<open>fl\<close> to the nearest double, ties to even.
    The exponent range is left unbounded: no overflow and no subnormal numbers, which
    coordinates in degrees do not reach. The negative zero that \<open>np.ceil\<close> returns on
    \<open>(-1, 0)\<close>, which shows in a zone name, is kept by reading \<open>np.ceil\<close> as a sign and
    a magnitude.
  \<^item> A lon/lat range is the two-element tuple that \<open>get_topo_file\<close> documents.
  \<^item> \<open>np.linspace\<close> is the one of the numpy releases the module was written for, which
    take the float that \<open>np.ceil\<close> returns as the number of samples.
  \<^item> A raised exception is \<open>Inl\<close> of a \<open>py_error\<close>; Python 3 semantics throughout.
\<close>

subsection \<open>Exceptions\<close>

datatype py_error =
    TypeError
  | AssertionError
  | UnboundLocalError
  | KeyError
  | RuntimeError
  | ValueError
  | HTTPError nat
  | ContentTooShortError
  | URLError
  | BadZipfile

subsection \<open>Numbers and their formatting\<close>

definition np_min :: "rat \<times> rat \<Rightarrow> rat" where
  "np_min r = min (fst r) (snd r)"

definition np_max :: "rat \<times> rat \<Rightarrow> rat" where
  "np_max r = max (fst r) (snd r)"

text \<open>
  Rounding to double precision. \<open>round_even\<close> rounds a rational to the nearest integer,
  a tie to the even one. \<open>expo x\<close> is the binary exponent of \<open>x\<close>: the \<open>e\<close> with
  \<open>2^e \<le> |x| < 2^(e+1)\<close>, found from the bit lengths of the numerator and the denominator.
  \<open>fl x\<close> keeps 53 significant bits: \<open>x\<close> is rounded to a multiple of \<open>2^(e-52)\<close>.
\<close>

definition round_even :: "rat \<Rightarrow> int" where
  "round_even x =
     (let f = \<lfloor>x\<rfloor>; r = x - of_int f
      in if r < 1 / 2 then f else if 1 / 2 < r then f + 1 else if even f then f else f + 1)"

definition expo :: "rat \<Rightarrow> int" where
  "expo x =
     (let pq = quotient_of \<bar>x\<bar>; d = bitlen (fst pq) - bitlen (snd pq)
      in if 2 powi d \<le> \<bar>x\<bar> then d else d - 1)"

definition fl :: "rat \<Rightarrow> rat" where
  "fl x = (if x = 0 then 0
           else let q = 2 powi (expo x - 52) in of_int (round_even (x / q)) * q)"

text \<open>
  \<open>np.linspace(start, stop, num)\<close>: \<open>num\<close> evenly spaced samples, both ends included.
  numpy computes \<open>delta = stop - start\<close>, \<open>step = delta / (num - 1)\<close> and the samples
  \<open>arange(0, num) * step + start\<close>, every operation in doubles, and then overwrites the
  last sample with \<open>stop\<close>. The numbers of samples of this module are far below \<open>2^53\<close>,
  so the indices and \<open>num - 1\<close> are doubles as they stand.
\<close>

definition linspace :: "rat \<Rightarrow> rat \<Rightarrow> nat \<Rightarrow> rat list" where
  "linspace start stop num =
     (if num = 1 then [start]
      else (let delta = fl (stop - start);
                step = fl (delta / of_nat (num - 1))
            in map (\<lambda>i. if i = num - 1 then stop else fl (fl (of_nat i * step) + start))
                 [0..<num]))"

text \<open>
  \<open>np.ceil\<close> and \<open>np.floor\<close> return floats. An integral float is a sign bit and a
  magnitude: \<open>np.ceil\<close> of a value in \<open>(-1, 0)\<close> is \<open>-0.0\<close>, printed \<open>-0\<close>.
\<close>

type_synonym intfloat = "bool \<times> nat"

definition np_ceil :: "rat \<Rightarrow> intfloat" where
  "np_ceil x = (x < 0, nat \<bar>\<lceil>x\<rceil>\<bar>)"

definition np_floor :: "rat \<Rightarrow> intfloat" where
  "np_floor x = (x < 0, nat \<bar>\<lfloor>x\<rfloor>\<bar>)"

definition digit_char :: "nat \<Rightarrow> char" where
  "digit_char d = char_of (48 + d)"

fun digits :: "nat \<Rightarrow> string" where
  "digits n = (if n < 10 then [digit_char n] else digits (n div 10) @ [digit_char (n mod 10)])"

declare digits.simps [simp del]

text \<open>
  \<open>'{:0W.0f}'.format(v)\<close> for an integral float \<open>v\<close>: the sign, then zeros up to the
  width \<open>W\<close>, then the decimal digits.
\<close>

definition fmt_0f :: "nat \<Rightarrow> intfloat \<Rightarrow> string" where
  "fmt_0f width v =
     (let s = (if fst v then ''-'' else ''''); d = digits (snd v)
      in s @ replicate (width - length s - length d) (CHR ''0'') @ d)"

subsection \<open>Running a loop body that may raise\<close>

text \<open>
  \<open>for x in xs: out.append(f(x))\<close>, where \<open>f\<close> may raise: the first exception ends the
  loop.
\<close>

fun for_each :: "('a \<Rightarrow> py_error + 'b) \<Rightarrow> 'a list \<Rightarrow> py_error + 'b list" where
  "for_each f [] = Inr []"
| "for_each f (x # xs) =
     (case f x of
        Inl e \<Rightarrow> Inl e
      | Inr y \<Rightarrow> (case for_each f xs of Inl e \<Rightarrow> Inl e | Inr ys \<Rightarrow> Inr (y # ys)))"

subsection \<open>The degree-grid indexer \<open>srtm_zone\<close>\<close>

text \<open>The body of the two nested loops, for one sample \<open>(lon, lat)\<close>.\<close>

definition srtm_tile :: "rat \<times> rat \<Rightarrow> py_error + string" where
  "srtm_tile p =
     (let srtm_x0 = -180; srtm_y0 = 60; srtm_dx = 5; srtm_dy = -5;
          dx = fl (fst p - srtm_x0);
          dy = fl (snd p - srtm_y0)
      in if \<not> dy < 0 then Inl AssertionError
         else Inr (fmt_0f 2 (np_ceil (fl (dx / srtm_dx))) @ ''_'' @
                   fmt_0f 2 (np_ceil (fl (dy / srtm_dy)))))"

text \<open>
  The samples of one axis, and the function: the outer loop runs over the longitudes,
  the inner one over the latitudes, which is the order of \<open>List.product\<close>.
  \<open>list(sorted(set(zones)))\<close> is \<open>sort (remdups zones)\<close> in the code-point order of strings.
\<close>

definition densify :: "rat \<times> rat \<Rightarrow> rat list" where
  "densify r =
     (let mi = np_min r; ma = np_max r in linspace mi ma (nat \<lceil>fl (fl (ma - mi) + 3)\<rceil>))"

definition srtm_zone :: "rat \<times> rat \<Rightarrow> rat \<times> rat \<Rightarrow> py_error + string list" where
  "srtm_zone lon_ran lat_ran =
     (case for_each srtm_tile (List.product (densify lon_ran) (densify lat_ran)) of
        Inl e \<Rightarrow> Inl e
      | Inr zones \<Rightarrow> Inr (sort (remdups zones)))"


subsection \<open>The lettered-grid indexer \<open>dem3_viewpano_zone\<close>\<close>

text \<open>
  \<open>DEM3REG\<close>, in the order the dictionary literal lists its keys (the order a Python 3.7
  dictionary iterates in). Each box is \<open>[lon0, lon1, lat0, lat1]\<close>, here a 4-tuple. The
  Antarctica and Greenland entries are commented out in the source.
\<close>

type_synonym box = "rat \<times> rat \<times> rat \<times> rat"

definition DEM3REG :: "(string \<times> box) list" where
  "DEM3REG =
     [(''ISL'', (-25, -12, 63, 67)),
      (''SVALBARD'', (10, 34, 76, 81)),
      (''JANMAYEN'', (-10, -7, 70, 72)),
      (''FJ'', (36, 66, 79, 82)),
      (''FAR'', (-8, -6, 61, 63)),
      (''BEAR'', (18, 20, 74, 75)),
      (''SHL'', (-3, 0, 60, 61))]"

definition in_box :: "rat \<times> rat \<Rightarrow> rat \<times> rat \<Rightarrow> box \<Rightarrow> bool" where
  "in_box lon_ran lat_ran b =
     (case b of (x0, x1, y0, y1) \<Rightarrow>
        np_min lon_ran \<ge> x0 \<and> np_max lon_ran \<le> x1 \<and>
        np_min lat_ran \<ge> y0 \<and> np_max lat_ran \<le> y1)"

text \<open>The \<open>if/elif\<close> chain inside the loop over the regions; \<open>f\<close> is the region's key.\<close>

definition dem3_inset :: "rat \<times> rat \<Rightarrow> rat \<times> rat \<Rightarrow> string \<Rightarrow> string list" where
  "dem3_inset lon_ran lat_ran f =
     (if in_box lon_ran lat_ran (-91, -90, -72, -68) then [''SR15'']
      else if in_box lon_ran lat_ran (-47, -43, -61, -60) then [''SP23'']
      else if in_box lon_ran lat_ran (162, 165, -68, -66) then [''SQ58'']
      else if in_box lon_ran lat_ran (-66, -60, 80, 83) then [''U20'']
      else if in_box lon_ran lat_ran (-60, -54, 80, 83) then [''U21'']
      else if in_box lon_ran lat_ran (-54, -48, 80, 83) then [''U22'']
      else [f])"

text \<open>
  The loop \<open>for _f in extra_reg.keys()\<close>: the first region that contains the extent
  returns; \<open>None\<close> when the loop ends without returning.
\<close>

fun dem3_special :: "rat \<times> rat \<Rightarrow> rat \<times> rat \<Rightarrow> (string \<times> box) list \<Rightarrow> string list option" where
  "dem3_special lon_ran lat_ran [] = None"
| "dem3_special lon_ran lat_ran ((f, b) # rest) =
     (if in_box lon_ran lat_ran b then Some (dem3_inset lon_ran lat_ran f)
      else dem3_special lon_ran lat_ran rest)"

text \<open>
  The generic name of one sample: 6 degrees of longitude by 4 of latitude, the latitude
  band as a letter. \<open>chr\<close> is \<open>char_of\<close>, which agrees with Python below code point 256
  (latitudes within \<open>\<plusminus>90\<close> stay below \<open>W\<close>).
\<close>

definition dem3_tile :: "rat \<times> rat \<Rightarrow> string" where
  "dem3_tile p =
     (let srtm_x0 = -180; srtm_y0 = 0; srtm_dx = 6; srtm_dy = 4;
          dx = fl (fst p - srtm_x0);
          dy = fl (snd p - srtm_y0);
          zx = np_ceil (fl (dx / srtm_dx));
          zy = char_of (nat \<lfloor>\<bar>fl (dy / srtm_dy)\<bar>\<rfloor> + 65)
      in if snd p \<ge> 0 then zy # fmt_0f 2 zx else ''S'' @ zy # fmt_0f 2 zx)"

text \<open>
  The source divides the longitude span by \<open>srtm_dy\<close> and the latitude span by
  \<open>srtm_dx\<close> to get the numbers of samples; the model does the same.
\<close>

definition dem3_viewpano_zone :: "rat \<times> rat \<Rightarrow> rat \<times> rat \<Rightarrow> (string \<times> box) list \<Rightarrow> string list" where
  "dem3_viewpano_zone lon_ran lat_ran extra_reg =
     (case dem3_special lon_ran lat_ran extra_reg of
        Some zs \<Rightarrow> zs
      | None \<Rightarrow>
         (let srtm_dx = 6; srtm_dy = 4;
              mi = np_min lon_ran; ma = np_max lon_ran;
              lon_ex = linspace mi ma (nat (\<lceil>fl (fl (ma - mi) / srtm_dy)\<rceil> + 3));
              mi = np_min lat_ran; ma = np_max lat_ran;
              lat_ex = linspace mi ma (nat (\<lceil>fl (fl (ma - mi) / srtm_dx)\<rceil> + 3))
          in sort (remdups (map dem3_tile (List.product lon_ex lat_ex)))))"

subsection \<open>The unit/tile indexer \<open>aster_zone\<close>\<close>

text \<open>
  \<open>math.copysign(1, dx) == -1\<close> reads the sign bit of \<open>np.floor\<close>'s result. After the
  sign flip both the tile and the unit coordinates are non-negative. The unit coordinate
  is the product of an integral double and \<open>units_dx\<close>, again an integral double.
\<close>

definition aster_tile :: "rat \<times> rat \<Rightarrow> string \<times> string" where
  "aster_tile p =
     (let units_dx = 5;
          dx = np_floor (fst p);
          zx = nat \<lfloor>fl (of_nat (snd (np_floor (fl (fst p / units_dx)))) * units_dx)\<rfloor>;
          lon_let = (if fst dx then ''W'' else ''E'');
          dy = np_floor (snd p);
          zy = nat \<lfloor>fl (of_nat (snd (np_floor (fl (snd p / units_dx)))) * units_dx)\<rfloor>;
          lat_let = (if fst dy then ''S'' else ''N'');
          z = lat_let @ fmt_0f 2 (False, snd dy) @ lon_let @ fmt_0f 3 (False, snd dx);
          u = lat_let @ fmt_0f 2 (False, zy) @ lon_let @ fmt_0f 3 (False, zx)
      in (z, u))"

fun aster_collect :: "(string \<times> string) list \<Rightarrow> string list \<times> string list \<Rightarrow> string list \<times> string list" where
  "aster_collect [] acc = acc"
| "aster_collect ((z, u) # ps) (zones, units) =
     aster_collect ps (if z \<in> set zones then (zones, units) else (zones @ [z], units @ [u]))"

definition aster_zone :: "rat \<times> rat \<Rightarrow> rat \<times> rat \<Rightarrow> string list \<times> string list" where
  "aster_zone lon_ex lat_ex =
     aster_collect (map aster_tile (List.product (densify lon_ex) (densify lat_ex))) ([], [])"


subsection \<open>The world: files, network and a trace of what was done\<close>

text \<open>
  A file is either a zip archive, known by the names of its members, or other bytes
  (\<open>Raw\<close>), which \<open>zipfile.ZipFile\<close> rejects with \<open>BadZipfile\<close>. The file system is a
  list of paths with their contents, newest first; directories are not modelled, so
  \<open>mkdir\<close> does nothing, \<open>os.path.exists\<close> and \<open>os.path.isfile\<close> coincide, and paths are
  compared as strings.

  The network is a function: \<open>server w url n\<close> is what the fetch of \<open>url\<close> meets when
  \<open>n\<close> fetches have been made before. The trace records every fetch, every sleep and
  every call of a zone indexer, newest first.
\<close>

datatype content = Raw | Zip "string list"

datatype response = Ok content | HTTPErr nat | TooShort | URLErr

datatype event = Fetch string | Sleep nat | CallSrtmZone | CallDem3Zone | CallAsterZone

record world =
  files :: "(string \<times> content) list"
  server :: "string \<Rightarrow> nat \<Rightarrow> response"
  trace :: "event list"

fun is_fetch :: "event \<Rightarrow> bool" where
  "is_fetch (Fetch u) = True"
| "is_fetch e = False"

definition n_fetch :: "world \<Rightarrow> nat" where
  "n_fetch w = length (filter is_fetch (trace w))"

definition log_event :: "event \<Rightarrow> world \<Rightarrow> world" where
  "log_event e w = w\<lparr>trace := e # trace w\<rparr>"

definition path_exists :: "world \<Rightarrow> string \<Rightarrow> bool" where
  "path_exists w p = (p \<in> set (map fst (files w)))"

definition write_file :: "string \<Rightarrow> content \<Rightarrow> world \<Rightarrow> world" where
  "write_file p c w = w\<lparr>files := (p, c) # filter (\<lambda>e. fst e \<noteq> p) (files w)\<rparr>"

definition remove_file :: "string \<Rightarrow> world \<Rightarrow> world" where
  "remove_file p w = w\<lparr>files := filter (\<lambda>e. fst e \<noteq> p) (files w)\<rparr>"

text \<open>\<open>os.path.join\<close> of two parts (posixpath).\<close>

definition path_join :: "string \<Rightarrow> string \<Rightarrow> string" where
  "path_join a b =
     (if b \<noteq> [] \<and> hd b = CHR ''/'' then b
      else if a = [] \<or> last a = CHR ''/'' then a @ b
      else a @ ''/'' @ b)"

text \<open>
  \<open>urlretrieve\<close> of the standard library: a successful fetch writes the destination, an
  interrupted one (\<open>ContentTooShortError\<close>) leaves a truncated file behind.
\<close>

definition lib_urlretrieve :: "string \<Rightarrow> string \<Rightarrow> world \<Rightarrow> (py_error + unit) \<times> world" where
  "lib_urlretrieve url ofile w =
     (let w1 = log_event (Fetch url) w
      in case server w url (n_fetch w) of
           Ok c \<Rightarrow> (Inr (), write_file ofile c w1)
         | HTTPErr code \<Rightarrow> (Inl (HTTPError code), w1)
         | TooShort \<Rightarrow> (Inl ContentTooShortError, write_file ofile Raw w1)
         | URLErr \<Rightarrow> (Inl URLError, w1))"

text \<open>
  The module's \<open>_urlretrieve\<close>: on any exception the destination is removed if it exists
  and the exception is raised again. \<open>progress_urlretrieve\<close> adds the progress bar only.
\<close>

definition urlretrieve :: "string \<Rightarrow> string \<Rightarrow> world \<Rightarrow> (py_error + unit) \<times> world" where
  "urlretrieve url ofile w =
     (case lib_urlretrieve url ofile w of
        (Inl e, w1) \<Rightarrow> (Inl e, if path_exists w1 ofile then remove_file ofile w1 else w1)
      | (Inr u, w1) \<Rightarrow> (Inr u, w1))"

definition progress_urlretrieve :: "string \<Rightarrow> string \<Rightarrow> world \<Rightarrow> (py_error + unit) \<times> world" where
  "progress_urlretrieve url ofile w = urlretrieve url ofile w"

text \<open>
  \<open>with zipfile.ZipFile(ofile) as zf: zf.extractall(outdir)\<close>. The callers open an
  archive they have just written, so a missing file is treated like an unreadable one.
\<close>

definition extractall :: "string \<Rightarrow> string \<Rightarrow> world \<Rightarrow> (py_error + unit) \<times> world" where
  "extractall ofile outdir w =
     (case map_of (files w) ofile of
        Some (Zip ms) \<Rightarrow> (Inr (), fold (\<lambda>m. write_file (path_join outdir m) Raw) ms w)
      | Some Raw \<Rightarrow> (Inl BadZipfile, w)
      | None \<Rightarrow> (Inl BadZipfile, w))"

definition sleep :: "nat \<Rightarrow> world \<Rightarrow> world" where
  "sleep n w = log_event (Sleep n) w"

subsection \<open>\<open>download_srtm_file\<close>\<close>

datatype loop_exit = Break | ReturnNone

text \<open>
  The \<open>while True\<close> loop of \<open>_download_srtm_file_unlocked\<close>. \<open>retry_counter\<close> is the value
  before the increment that opens the \<open>try\<close> block.
\<close>

function srtm_loop :: "string \<Rightarrow> string \<Rightarrow> string \<Rightarrow> nat \<Rightarrow> nat \<Rightarrow> world \<Rightarrow> (py_error + loop_exit) \<times> world" where
  "srtm_loop ifile ofile outdir retry_max retry_counter w =
     (case progress_urlretrieve ifile ofile w of
        (Inl (HTTPError code), w1) \<Rightarrow>
          if code = 404 then (Inr ReturnNone, w1)
          else if (500 \<le> code \<and> code < 600) \<and> retry_counter + 1 \<le> retry_max
               then srtm_loop ifile ofile outdir retry_max (retry_counter + 1) (sleep 10 w1)
               else (Inl (HTTPError code), w1)
      | (Inl e, w1) \<Rightarrow> (Inl e, w1)
      | (Inr u, w1) \<Rightarrow>
          (case extractall ofile outdir w1 of
             (Inl BadZipfile, w2) \<Rightarrow> (Inr ReturnNone, w2)
           | (Inl e, w2) \<Rightarrow> (Inl e, w2)
           | (Inr u, w2) \<Rightarrow> (Inr Break, w2)))"
  by pat_completeness auto
termination
  by (relation "measure (\<lambda>(ifile, ofile, outdir, retry_max, retry_counter, w). retry_max - retry_counter)") auto

declare srtm_loop.simps [simp del]

definition download_srtm_file_unlocked :: "string \<Rightarrow> string \<Rightarrow> nat \<Rightarrow> world \<Rightarrow> (py_error + string option) \<times> world" where
  "download_srtm_file_unlocked zone outdir retry w =
     (let ofile = path_join outdir (''srtm_'' @ zone @ ''.zip'');
          ifile = ''http://droppr.org/srtm/v4.1/6_5x5_TIFs'' @ ''/srtm_'' @ zone @ ''.zip'';
          out = path_join outdir (''srtm_'' @ zone @ ''.tif'');
          finish = (\<lambda>w'. if path_exists w' out then (Inr (Some out), w') else (Inl AssertionError, w'))
      in if \<not> path_exists w ofile then
           (case srtm_loop ifile ofile outdir retry 0 w of
              (Inl e, w1) \<Rightarrow> (Inl e, w1)
            | (Inr ReturnNone, w1) \<Rightarrow> (Inr None, w1)
            | (Inr Break, w1) \<Rightarrow> finish w1)
         else finish w)"

text \<open>
  \<open>download_srtm_file\<close> runs the unlocked function under the directory lock, with the
  default \<open>retry=5\<close>. One process is modelled: the lock is always acquired, and the lock
  file is not part of the file list.
\<close>

definition download_srtm_file :: "string \<Rightarrow> string \<Rightarrow> world \<Rightarrow> (py_error + string option) \<times> world" where
  "download_srtm_file zone outdir w = download_srtm_file_unlocked zone outdir 5 w"


subsection \<open>\<open>download_dem3_viewpano\<close>\<close>

text \<open>
  The loop of \<open>_download_dem3_viewpano_unlocked\<close>, with \<open>retry_max = 5\<close> written into the
  function. Its handler of \<open>ContentTooShortError\<close> formats \<open>err.code\<close>, but \<open>err\<close> is the
  name bound by the \<open>HTTPError\<close> handler only, and unbound once that handler is left:
  the handler raises \<open>UnboundLocalError\<close> before it sleeps.
\<close>

function dem3_loop :: "string \<Rightarrow> string \<Rightarrow> string \<Rightarrow> nat \<Rightarrow> world \<Rightarrow> (py_error + loop_exit) \<times> world" where
  "dem3_loop ifile ofile outdir retry_counter w =
     (let retry_max = 5
      in case progress_urlretrieve ifile ofile w of
           (Inl (HTTPError code), w1) \<Rightarrow>
             if code = 404 then (Inr ReturnNone, w1)
             else if (500 \<le> code \<and> code < 600) \<and> retry_counter + 1 \<le> retry_max
                  then dem3_loop ifile ofile outdir (retry_counter + 1) (sleep 10 w1)
                  else (Inl (HTTPError code), w1)
         | (Inl ContentTooShortError, w1) \<Rightarrow> (Inl UnboundLocalError, w1)
         | (Inl e, w1) \<Rightarrow> (Inl e, w1)
         | (Inr u, w1) \<Rightarrow>
             (case extractall ofile outdir w1 of
                (Inl BadZipfile, w2) \<Rightarrow> (Inr ReturnNone, w2)
              | (Inl e, w2) \<Rightarrow> (Inl e, w2)
              | (Inr u, w2) \<Rightarrow> (Inr Break, w2)))"
  by pat_completeness auto
termination
  by (relation "measure (\<lambda>(ifile, ofile, outdir, retry_counter, w). 5 - retry_counter)") auto

declare dem3_loop.simps [simp del]

text \<open>
  \<open>glob.glob\<close> for the two patterns of the function: \<open>dir/*.hgt\<close> and \<open>dir/*/*.hgt\<close>.
  A star matches a name without a slash that does not begin with a dot. Zone names come
  from the indexers and hold no pattern characters.
\<close>

definition ends_with :: "string \<Rightarrow> string \<Rightarrow> bool" where
  "ends_with suf s = (length suf \<le> length s \<and> drop (length s - length suf) s = suf)"

definition hgt_name :: "string \<Rightarrow> bool" where
  "hgt_name name = (CHR ''/'' \<notin> set name \<and> ends_with ''.hgt'' name \<and> hd name \<noteq> CHR ''.'')"

definition glob_hgt :: "string \<Rightarrow> world \<Rightarrow> string list" where
  "glob_hgt dir w =
     (let pre = path_join dir []
      in filter (\<lambda>p. take (length pre) p = pre \<and> hgt_name (drop (length pre) p)) (map fst (files w)))"

definition glob_sub_hgt :: "string \<Rightarrow> world \<Rightarrow> string list" where
  "glob_sub_hgt dir w =
     (let pre = path_join dir []
      in filter (\<lambda>p. take (length pre) p = pre \<and>
                  (let rest = drop (length pre) p; d = takeWhile (\<lambda>c. c \<noteq> CHR ''/'') rest
                   in d \<noteq> [] \<and> hd d \<noteq> CHR ''.'' \<and> length d < length rest \<and>
                      hgt_name (drop (length d + 1) rest)))
           (map fst (files w)))"

definition dem3_v2_zones :: "string list" where
  "dem3_v2_zones =
     [''R33'', ''R34'', ''R35'', ''R36'', ''R37'', ''R38'', ''Q32'', ''Q33'', ''Q34'',
      ''Q35'', ''Q36'', ''Q37'', ''Q38'', ''Q39'', ''Q40'', ''P31'', ''P32'', ''P33'',
      ''P34'', ''P35'', ''P36'', ''P37'', ''P38'', ''P39'', ''P40'']"

text \<open>
  The part of the function after the loop. The merge of the \<open>.hgt\<close> files is rasterio's
  work: its visible effect is the GeoTIFF written at \<open>outpath\<close>, after which the merged
  files are deleted.
\<close>

definition dem3_merge :: "string \<Rightarrow> string \<Rightarrow> string \<Rightarrow> world \<Rightarrow> (py_error + string option) \<times> world" where
  "dem3_merge zone outdir outpath w =
     (let zonedir = (if length zone = 4 \<and> hd zone = CHR ''S''
                     then path_join outdir (tl zone) else path_join outdir zone);
          globlist = glob_hgt zonedir w;
          globlist = (if zone \<in> set (map fst DEM3REG) then glob_sub_hgt outdir w else globlist)
      in if globlist = [] then (Inl RuntimeError, w)
         else (let w1 = write_file outpath Raw w
               in if \<not> path_exists w1 outpath then (Inl AssertionError, w1)
                  else (Inr (Some outpath), fold remove_file globlist w1)))"

definition download_dem3_viewpano_unlocked :: "string \<Rightarrow> string \<Rightarrow> world \<Rightarrow> (py_error + string option) \<times> world" where
  "download_dem3_viewpano_unlocked zone outdir w =
     (let ofile = path_join outdir (''dem3_'' @ zone @ ''.zip'');
          outpath = path_join outdir (zone @ ''.tif'')
      in if path_exists w outpath then (Inr (Some outpath), w)
         else
          (let ifile =
                 (if zone \<in> set dem3_v2_zones
                  then ''http://viewfinderpanoramas.org/dem3/'' @ zone @ ''v2.zip''
                  else if zone \<in> set [''01-15'', ''16-30'', ''31-45'', ''46-60'']
                  then ''http://viewfinderpanoramas.org/ANTDEM3/'' @ zone @ ''.zip''
                  else ''http://viewfinderpanoramas.org/dem3/'' @ zone @ ''.zip'')
           in if \<not> path_exists w ofile then
                (case dem3_loop ifile ofile outdir 0 w of
                   (Inl e, w1) \<Rightarrow> (Inl e, w1)
                 | (Inr ReturnNone, w1) \<Rightarrow> (Inr None, w1)
                 | (Inr Break, w1) \<Rightarrow> dem3_merge zone outdir outpath w1)
              else dem3_merge zone outdir outpath w))"

definition download_dem3_viewpano :: "string \<Rightarrow> string \<Rightarrow> world \<Rightarrow> (py_error + string option) \<times> world" where
  "download_dem3_viewpano zone outdir w = download_dem3_viewpano_unlocked zone outdir w"

subsection \<open>The archive step of \<open>_download_gh_sample_files_unlocked\<close>\<close>

text \<open>
  Only the block under \<open># download only if necessary\<close> is embedded (the check of the
  commit hash before it and the listing of the files after it are left out): fetch,
  extract, and on \<open>BadZipfile\<close> remove the archive, fetch once more and extract again,
  this time outside any \<open>try\<close>.
\<close>

definition gh_download_if_necessary :: "string \<Rightarrow> string \<Rightarrow> string \<Rightarrow> world \<Rightarrow> (py_error + unit) \<times> world" where
  "gh_download_if_necessary master_zip_url ofile odir w =
     (if \<not> path_exists w ofile then
        (case progress_urlretrieve master_zip_url ofile w of
           (Inl e, w1) \<Rightarrow> (Inl e, w1)
         | (Inr u, w1) \<Rightarrow>
            (case extractall ofile odir w1 of
               (Inl BadZipfile, w2) \<Rightarrow>
                 (let w3 = (if path_exists w2 ofile then remove_file ofile w2 else w2)
                  in case progress_urlretrieve master_zip_url ofile w3 of
                       (Inl e, w4) \<Rightarrow> (Inl e, w4)
                     | (Inr u, w4) \<Rightarrow> extractall ofile odir w4)
             | (Inl e, w2) \<Rightarrow> (Inl e, w2)
             | (Inr u, w2) \<Rightarrow> (Inr (), w2)))
      else (Inr (), w))"


subsection \<open>\<open>get_topo_file\<close>\<close>

text \<open>
  The \<open>source\<close> argument is \<open>None\<close>, a string or a list of strings. The environment holds
  \<open>cfg.PATHS\<close>; \<open>hashlib.md5(...).hexdigest()\<close> is not computed here and is a parameter.
\<close>

datatype source_arg = SrcNone | SrcStr string | SrcList "string list"

record environment =
  PATHS :: "string \<rightharpoonup> string"
  md5_hexdigest :: "string \<Rightarrow> string"

text \<open>\<open>source = 'X' if source is None else source\<close>\<close>

definition default_to :: "string \<Rightarrow> source_arg \<Rightarrow> source_arg" where
  "default_to name source = (if source = SrcNone then SrcStr name else source)"

text \<open>
  Four calls of the module pass fewer arguments than the callee declares, and raise
  \<open>TypeError\<close> before the callee's body runs:
  \<^item> \<open>get_topo_file\<close> calls \<open>download_dem3_viewpano(z)\<close> and \<open>download_srtm_file(z)\<close>, both
    declared with the parameters \<open>(zone, outdir)\<close>;
  \<^item> \<open>_download_aster_file\<close> and \<open>_download_alternate_topo_file\<close> open with
    \<open>get_download_lock()\<close>, declared as \<open>get_download_lock(lock_dir)\<close>. Their unlocked
    bodies are never reached and are not embedded.
\<close>

definition call_download_dem3_viewpano :: "string \<Rightarrow> world \<Rightarrow> (py_error + string option) \<times> world" where
  "call_download_dem3_viewpano z w = (Inl TypeError, w)"

definition call_download_srtm_file :: "string \<Rightarrow> world \<Rightarrow> (py_error + string option) \<times> world" where
  "call_download_srtm_file z w = (Inl TypeError, w)"

definition download_aster_file :: "string \<Rightarrow> string \<Rightarrow> world \<Rightarrow> (py_error + string option) \<times> world" where
  "download_aster_file zone unit w = (Inl TypeError, w)"

definition download_alternate_topo_file :: "string \<Rightarrow> world \<Rightarrow> (py_error + string option) \<times> world" where
  "download_alternate_topo_file fname w = (Inl TypeError, w)"

text \<open>A \<open>for\<close> loop whose body changes the world and may raise.\<close>

fun for_each_st :: "('a \<Rightarrow> world \<Rightarrow> (py_error + 'b) \<times> world) \<Rightarrow> 'a list \<Rightarrow> world \<Rightarrow> (py_error + 'b list) \<times> world" where
  "for_each_st f [] w = (Inr [], w)"
| "for_each_st f (x # xs) w =
     (case f x w of
        (Inl e, w1) \<Rightarrow> (Inl e, w1)
      | (Inr y, w1) \<Rightarrow>
         (case for_each_st f xs w1 of
            (Inl e, w2) \<Rightarrow> (Inl e, w2)
          | (Inr ys, w2) \<Rightarrow> (Inr (y # ys), w2)))"

text \<open>
  The locals \<open>zones\<close>, \<open>sources\<close> and \<open>source_str\<close> are assigned together or not at all:
  \<open>None\<close> stands for the three names being unbound.
\<close>

type_synonym tiles = "string list \<times> string option list \<times> string"

text \<open>
  The block \<open># Anywhere else on Earth we chack for DEM3, ASTER, or SRTM\<close>. It returns the
  new value of \<open>source\<close> and the tiles. The two tests \<open>source == 'DEM3'\<close> and
  \<open>source == 'ASTER'\<close> exclude each other, so the second is written as an \<open>else\<close>. The call
  of an indexer is logged before the indexer runs.
\<close>

definition topo_tiles :: "rat \<times> rat \<Rightarrow> rat \<times> rat \<Rightarrow> source_arg \<Rightarrow> world \<Rightarrow> (py_error + source_arg \<times> tiles option) \<times> world" where
  "topo_tiles lon_ex lat_ex source w =
     (if np_min lat_ex < -60 \<or> np_max lat_ex > 60 \<or>
         source = SrcStr ''DEM3'' \<or> source = SrcStr ''ASTER''
      then
        (let source = default_to ''DEM3'' source
         in if source = SrcStr ''DEM3'' then
              (let w1 = log_event CallDem3Zone w;
                   zones = dem3_viewpano_zone lon_ex lat_ex DEM3REG
               in case for_each_st call_download_dem3_viewpano zones w1 of
                    (Inl e, w2) \<Rightarrow> (Inl e, w2)
                  | (Inr sources, w2) \<Rightarrow> (Inr (source, Some (zones, sources, ''DEM3'')), w2))
            else if source = SrcStr ''ASTER'' then
              (let w1 = log_event CallAsterZone w;
                   zu = aster_zone lon_ex lat_ex
               in case for_each_st (\<lambda>p. download_aster_file (fst p) (snd p)) (zip (fst zu) (snd zu)) w1 of
                    (Inl e, w2) \<Rightarrow> (Inl e, w2)
                  | (Inr sfs, w2) \<Rightarrow>
                      (Inr (source, Some (fst zu, filter (\<lambda>sf. sf \<noteq> None) sfs, ''ASTER'')), w2))
            else (Inr (source, None), w))
      else
        (let source = default_to ''SRTM'' source
         in if source = SrcStr ''SRTM'' then
              (let w1 = log_event CallSrtmZone w
               in case srtm_zone lon_ex lat_ex of
                    Inl e \<Rightarrow> (Inl e, w1)
                  | Inr zones \<Rightarrow>
                     (case for_each_st call_download_srtm_file zones w1 of
                        (Inl e, w2) \<Rightarrow> (Inl e, w2)
                      | (Inr sources, w2) \<Rightarrow> (Inr (source, Some (zones, sources, ''SRTM'')), w2)))
            else (Inr (source, None), w)))"

fun join_plus :: "string list \<Rightarrow> string" where
  "join_plus [] = []"
| "join_plus [z] = z"
| "join_plus (z # zs) = z @ ''+'' @ join_plus zs"

definition lower_char :: "char \<Rightarrow> char" where
  "lower_char c = (if CHR ''A'' \<le> c \<and> c \<le> CHR ''Z'' then char_of (of_char c + (32::nat)) else c)"

text \<open>
  From \<open># filter for None (e.g. oceans)\<close> to the end. The merge is rasterio's work: its
  visible effect is the file written at \<open>merged_file\<close>.
\<close>

definition topo_resolve :: "environment \<Rightarrow> string \<Rightarrow> tiles \<Rightarrow> world \<Rightarrow> (py_error + string option \<times> string) \<times> world" where
  "topo_resolve env topodir t w =
     (case t of (zones, sources, source_str) \<Rightarrow>
       (let sources = filter (\<lambda>s. s \<noteq> None) sources
        in if length sources < 1 then (Inl RuntimeError, w)
           else if length sources = 1 then (Inr (hd sources, source_str), w)
           else
            (let zone_str = join_plus zones;
                 bname = map lower_char source_str @ ''_merged_'' @ zone_str @ ''.tif'';
                 bname = (if length bname > 200 then md5_hexdigest env bname @ ''.tif'' else bname);
                 merged_file = path_join (path_join topodir (map lower_char source_str)) bname
             in if \<not> path_exists w merged_file then
                  (if \<forall>x\<in>set sources. x = None then (Inl ValueError, w)
                   else (Inr (Some merged_file, source_str @ ''_MERGED''), write_file merged_file Raw w))
                else (Inr (Some merged_file, source_str @ ''_MERGED''), w))))"

text \<open>
  The function from \<open># Did the user specify a specific DEM file?\<close> on, that is all of it
  but the loop over a list of sources. \<open>rgi_region\<close> is the integer \<open>int(rgi_region)\<close>.
\<close>

definition get_topo_file_body :: "environment \<Rightarrow> rat \<times> rat \<Rightarrow> rat \<times> rat \<Rightarrow> int option \<Rightarrow> source_arg \<Rightarrow> world \<Rightarrow> (py_error + string option \<times> string) \<times> world" where
  "get_topo_file_body env lon_ex lat_ex rgi_region source w =
     (let user_dem = (case PATHS env ''dem_file'' of
                        Some f \<Rightarrow> if path_exists w f then Some f else None
                      | None \<Rightarrow> None);
          source = (if user_dem \<noteq> None then default_to ''USER'' source else source)
      in if user_dem \<noteq> None \<and> source = SrcStr ''USER'' then (Inr (user_dem, ''USER''), w)
         else
          (case PATHS env ''topo_dir'' of
             None \<Rightarrow> (Inl KeyError, w)
           | Some topodir \<Rightarrow>
              (let gimp = (source = SrcStr ''GIMP'' \<or> rgi_region = Some 5);
                   source = (if gimp then default_to ''GIMP'' source else source)
               in if gimp \<and> source = SrcStr ''GIMP'' then
                    (case download_alternate_topo_file ''gimpdem_90m.tif'' w of
                       (Inl e, w1) \<Rightarrow> (Inl e, w1)
                     | (Inr gimp_file, w1) \<Rightarrow> (Inr (gimp_file, ''GIMP''), w1))
                  else
                   (let ramp = (source = SrcStr ''RAMP'' \<or> rgi_region = Some 19);
                        source = (if ramp then
                                    (if np_max lat_ex > -60 then default_to ''DEM3'' source
                                     else default_to ''RAMP'' source)
                                  else source)
                    in if ramp \<and> source = SrcStr ''RAMP'' then
                         (case download_alternate_topo_file ''AntarcticDEM_wgs84.tif'' w of
                            (Inl e, w1) \<Rightarrow> (Inl e, w1)
                          | (Inr gimp_file, w1) \<Rightarrow> (Inr (gimp_file, ''RAMP''), w1))
                       else
                        (case topo_tiles lon_ex lat_ex source w of
                           (Inl e, w1) \<Rightarrow> (Inl e, w1)
                         | (Inr (source, tiles), w1) \<Rightarrow>
                            if source = SrcStr ''ETOPO1'' then
                              (let t_file = path_join topodir ''ETOPO1_Ice_g_geotiff.tif''
                               in if path_exists w1 t_file then (Inr (Some t_file, ''ETOPO1''), w1)
                                  else (Inl AssertionError, w1))
                            else
                              (case tiles of
                                 None \<Rightarrow> (Inl UnboundLocalError, w1)
                               | Some t \<Rightarrow> topo_resolve env topodir t w1))))))"

text \<open>
  The loop over a list of sources: each entry is tried with a recursive call, whose
  \<open>source\<close> is a string; the first result that is an existing file is returned.
  \<open>os.path.isfile(None)\<close> raises \<open>TypeError\<close>. \<open>None\<close> means the loop ended without
  returning.
\<close>

fun try_sources :: "environment \<Rightarrow> rat \<times> rat \<Rightarrow> rat \<times> rat \<Rightarrow> int option \<Rightarrow> string list \<Rightarrow> world \<Rightarrow> (py_error + (string option \<times> string) option) \<times> world" where
  "try_sources env lon_ex lat_ex rgi_region [] w = (Inr None, w)"
| "try_sources env lon_ex lat_ex rgi_region (s # ss) w =
     (case get_topo_file_body env lon_ex lat_ex rgi_region (SrcStr s) w of
        (Inl e, w1) \<Rightarrow> (Inl e, w1)
      | (Inr (demf, source_str), w1) \<Rightarrow>
         (case demf of
            None \<Rightarrow> (Inl TypeError, w1)
          | Some f \<Rightarrow>
             if path_exists w1 f then (Inr (Some (demf, source_str)), w1)
             else try_sources env lon_ex lat_ex rgi_region ss w1))"

text \<open>After the loop the list is still the value of \<open>source\<close>.\<close>

definition get_topo_file :: "environment \<Rightarrow> rat \<times> rat \<Rightarrow> rat \<times> rat \<Rightarrow> int option \<Rightarrow> source_arg \<Rightarrow> world \<Rightarrow> (py_error + string option \<times> string) \<times> world" where
  "get_topo_file env lon_ex lat_ex rgi_region source w =
     (case source of
        SrcList ss \<Rightarrow>
         (case try_sources env lon_ex lat_ex rgi_region ss w of
            (Inl e, w1) \<Rightarrow> (Inl e, w1)
          | (Inr (Some r), w1) \<Rightarrow> (Inr r, w1)
          | (Inr None, w1) \<Rightarrow> get_topo_file_body env lon_ex lat_ex rgi_region source w1)
      | SrcNone \<Rightarrow> get_topo_file_body env lon_ex lat_ex rgi_region source w
      | SrcStr s \<Rightarrow> get_topo_file_body env lon_ex lat_ex rgi_region source w)"


subsection \<open>Notions used in the statements and proofs\<close>

text \<open>
  The unit roundoff of double precision, which bounds the relative error of \<open>fl\<close>.
\<close>

definition eps :: rat where
  "eps = 1 / 2 ^ 53"

text \<open>
  The doubles are the values that rounding leaves alone; a Python float is one of them.
\<close>

definition is_double :: "rat \<Rightarrow> bool" where
  "is_double x \<longleftrightarrow> fl x = x"

text \<open>
  The name that \<open>srtm_tile\<close> gives a sample when its assertion holds; the number of
  samples of an axis, the step between them and the samples as an indexed family; the
  column and the row of the 5 degree grid that the arithmetic of \<open>srtm_tile\<close> gives a
  longitude and a latitude; and the name of the cell in column \<open>k\<close> and row \<open>j\<close>.
\<close>

definition srtm_name :: "rat \<times> rat \<Rightarrow> string" where
  "srtm_name p = fmt_0f 2 (np_ceil (fl (fl (fst p + 180) / 5))) @ ''_'' @
                 fmt_0f 2 (np_ceil (fl (fl (snd p - 60) / - 5)))"

definition nsamples :: "rat \<times> rat \<Rightarrow> nat" where
  "nsamples r = nat \<lceil>fl (fl (np_max r - np_min r) + 3)\<rceil>"

definition fstep :: "rat \<times> rat \<Rightarrow> rat" where
  "fstep r = fl (fl (np_max r - np_min r) / of_nat (nsamples r - 1))"

definition sample :: "rat \<times> rat \<Rightarrow> nat \<Rightarrow> rat" where
  "sample r i = (if i = nsamples r - 1 then np_max r else fl (fl (of_nat i * fstep r) + np_min r))"

definition zx :: "rat \<Rightarrow> int" where
  "zx lon = \<lceil>fl (fl (lon + 180) / 5)\<rceil>"

definition zy :: "rat \<Rightarrow> int" where
  "zy lat = \<lceil>fl (fl (lat - 60) / - 5)\<rceil>"

definition zone_str :: "int \<times> int \<Rightarrow> string" where
  "zone_str kj = fmt_0f 2 (False, nat (fst kj)) @ ''_'' @ fmt_0f 2 (False, nat (snd kj))"

text \<open>
  The test that opens \<open>get_topo_file\<close>'s user-file block:
  \<open>'dem_file' in cfg.PATHS and os.path.isfile(cfg.PATHS['dem_file'])\<close>.
\<close>

definition user_dem_configured :: "environment \<Rightarrow> world \<Rightarrow> bool" where
  "user_dem_configured env w =
     (case PATHS env ''dem_file'' of Some f \<Rightarrow> path_exists w f | None \<Rightarrow> False)"

text \<open>
  A small environment and a family of worlds for the examples: only \<open>topo_dir\<close> is
  configured, and the server gives the same answer to every fetch.
\<close>

definition example_env :: environment where
  "example_env = \<lparr>PATHS = [''topo_dir'' \<mapsto> ''/topo''], md5_hexdigest = (\<lambda>s. s)\<rparr>"

definition constant_world :: "(string \<times> content) list \<Rightarrow> response \<Rightarrow> world" where
  "constant_world fs r = \<lparr>files = fs, server = (\<lambda>url n. r), trace = []\<rparr>"

text \<open>
  Two boxes that share no point: used to see that the regions of \<open>DEM3REG\<close> and the
  inset boxes of \<open>dem3_viewpano_zone\<close> do not meet.
\<close>

definition boxes_disjoint :: "box \<Rightarrow> box \<Rightarrow> bool" where
  "boxes_disjoint b1 b2 =
     (case b1 of (x0, x1, y0, y1) \<Rightarrow> case b2 of (u0, u1, v0, v1) \<Rightarrow>
        x1 < u0 \<or> u1 < x0 \<or> y1 < v0 \<or> v1 < y0)"

section \<open>Properties\<close>

subsection \<open>Rounding to double precision\<close>

text \<open>
  What the proofs use of \<open>fl\<close>: the exponent brackets its argument, the rounding error is
  at most \<open>eps\<close> times the argument, \<open>fl\<close> is monotone and odd, and it leaves the integers
  below \<open>2^53\<close> alone.
\<close>

lemma pow2_pos [simp]: "0 < (2::rat) powi k"
  by (simp add: power_int_def)

lemma pow2_add: "(2::rat) powi (a + b) = 2 powi a * 2 powi b"
  by (simp add: power_int_add)

lemma pow2_mono: "a \<le> b \<Longrightarrow> (2::rat) powi a \<le> 2 powi b"
  by (rule power_int_increasing) simp_all

lemma pow2_strict_mono: "a < b \<Longrightarrow> (2::rat) powi a < 2 powi b"
  by (rule power_int_strict_increasing) simp_all

lemma pow2_Suc: "(2::rat) powi (k + 1) = 2 * 2 powi k"
  by (simp add: pow2_add)

lemma bitlen_rat_bounds:
  assumes "0 < p"
  shows "(2::rat) powi (bitlen p - 1) \<le> of_int p" "of_int p < (2::rat) powi (bitlen p)"
proof -
  have b: "1 \<le> bitlen p" using assms bitlen_eq_zero_iff [of p] bitlen_nonneg [of p] by linarith
  have "2 ^ nat (bitlen p - 1) \<le> p" "p < 2 ^ nat (bitlen p)"
    using bitlen_bounds [OF assms] by simp_all
  then have "(of_int (2 ^ nat (bitlen p - 1)) :: rat) \<le> of_int p" "(of_int p :: rat) < of_int (2 ^ nat (bitlen p))"
    by (simp_all only: of_int_le_iff of_int_less_iff)
  then show "(2::rat) powi (bitlen p - 1) \<le> of_int p" "of_int p < (2::rat) powi (bitlen p)"
    using b by (simp_all add: power_int_def)
qed

lemma expo_bounds:
  assumes "x \<noteq> 0"
  shows "2 powi (expo x) \<le> \<bar>x\<bar>" "\<bar>x\<bar> < 2 powi (expo x + 1)"
proof -
  obtain p q where pq: "quotient_of \<bar>x\<bar> = (p, q)" by (cases "quotient_of \<bar>x\<bar>")
  have q: "0 < q" using quotient_of_denom_pos [OF pq] .
  have x: "\<bar>x\<bar> = of_int p / of_int q" using quotient_of_div [OF pq] .
  have "0 < \<bar>x\<bar>" using assms by simp
  then have p: "0 < p" using x q by (simp add: zero_less_divide_iff)
  define d where "d = bitlen p - bitlen q"
  note bp = bitlen_rat_bounds [OF p] and bq = bitlen_rat_bounds [OF q]
  have qr: "(0::rat) < of_int q" using q by simp
  have "\<bar>x\<bar> * 2 powi (bitlen q - 1) \<le> \<bar>x\<bar> * of_int q"
    using bq(1) by (intro mult_left_mono) simp_all
  also have "\<dots> = of_int p" using x qr by simp
  also have "\<dots> < 2 powi (bitlen p)" by (rule bp(2))
  also have "\<dots> = 2 powi (d + 1) * 2 powi (bitlen q - 1)"
    unfolding d_def pow2_add [symmetric] by simp
  finally have up: "\<bar>x\<bar> < 2 powi (d + 1)" by simp
  have "(2::rat) powi (d - 1) * 2 powi (bitlen q) = 2 powi (bitlen p - 1)"
    unfolding d_def pow2_add [symmetric] by simp
  also have "\<dots> \<le> of_int p" by (rule bp(1))
  also have "\<dots> = \<bar>x\<bar> * of_int q" using x qr by simp
  also have "\<dots> < \<bar>x\<bar> * 2 powi (bitlen q)"
    using bq(2) \<open>0 < \<bar>x\<bar>\<close> by (intro mult_strict_left_mono)
  finally have lo: "2 powi (d - 1) < \<bar>x\<bar>" by simp
  have e: "expo x = (if 2 powi d \<le> \<bar>x\<bar> then d else d - 1)"
    unfolding expo_def Let_def pq d_def by simp
  show "2 powi (expo x) \<le> \<bar>x\<bar>" using lo e by (simp add: less_imp_le)
  show "\<bar>x\<bar> < 2 powi (expo x + 1)" using up e by (auto simp: not_le)
qed

lemma expo_unique:
  assumes "2 powi k \<le> \<bar>x\<bar>" "\<bar>x\<bar> < 2 powi (k + 1)"
  shows "expo x = k"
proof -
  have nz: "x \<noteq> 0"
  proof
    assume "x = 0"
    then have "2 powi k \<le> (0::rat)" using assms(1) by simp
    then show False using pow2_pos [of k] by linarith
  qed
  note b = expo_bounds [OF nz]
  have "2 powi k < (2::rat) powi (expo x + 1)" using assms(1) b(2) by simp
  then have 1: "k < expo x + 1" using pow2_mono [of "expo x + 1" k] by linarith
  have "2 powi (expo x) < (2::rat) powi (k + 1)" using assms(2) b(1) by simp
  then have 2: "expo x < k + 1" using pow2_mono [of "k + 1" "expo x"] by linarith
  show ?thesis using 1 2 by simp
qed

lemma expo_minus [simp]: "expo (- x) = expo x"
  by (simp add: expo_def)

lemma round_even_bounds:
  "\<bar>of_int (round_even x) - x\<bar> \<le> 1 / 2"
proof -
  have "of_int \<lfloor>x\<rfloor> \<le> x" "x < of_int \<lfloor>x\<rfloor> + 1" by linarith+
  then show ?thesis
    unfolding round_even_def Let_def
    by (simp add: abs_le_iff)
qed

lemma round_even_of_int [simp]: "round_even (of_int n) = n"
  unfolding round_even_def Let_def by simp

lemma round_even_mono:
  assumes "x \<le> y" shows "round_even x \<le> round_even y"
proof (cases "\<lfloor>x\<rfloor> = \<lfloor>y\<rfloor>")
  case True
  then show ?thesis using assms unfolding round_even_def Let_def by auto
next
  case False
  then have "\<lfloor>x\<rfloor> + 1 \<le> \<lfloor>y\<rfloor>" using floor_mono [OF assms] by simp
  moreover have "round_even x \<le> \<lfloor>x\<rfloor> + 1" unfolding round_even_def Let_def by simp
  moreover have "\<lfloor>y\<rfloor> \<le> round_even y" unfolding round_even_def Let_def by simp
  ultimately show ?thesis by linarith
qed

lemma round_even_minus: "round_even (- x) = - round_even x"
proof (cases "x = of_int \<lfloor>x\<rfloor>")
  case True
  then obtain n where "x = of_int n" ..
  then show ?thesis by (simp flip: of_int_minus)
next
  case False
  then have c: "\<lfloor>- x\<rfloor> = - \<lfloor>x\<rfloor> - 1"
    by (metis ceiling_altdef ceiling_def add_diff_cancel_right' minus_diff_eq minus_minus uminus_add_conv_diff add.commute diff_minus_eq_add)
  have "even (\<lfloor>x\<rfloor> + 1) = odd \<lfloor>x\<rfloor>" by simp
  then show ?thesis
    unfolding round_even_def Let_def c
    by (auto simp: algebra_simps)
qed


lemma fl_0 [simp]: "fl 0 = 0"
  by (simp add: fl_def)

lemma fl_minus: "fl (- x) = - fl x"
  by (simp add: fl_def Let_def round_even_minus)

lemma pow2_53: "(2::rat) powi (e - 53) = 2 powi e * eps"
proof -
  have "(2::rat) powi (e - 53) = 2 powi (e + (- 53))" by simp
  also have "\<dots> = 2 powi e * 2 powi (- 53)" by (rule pow2_add)
  also have "(2::rat) powi (- 53) = eps" by (simp add: power_int_def eps_def field_simps)
  finally show ?thesis .
qed

lemma pow2_52: "(2::rat) powi e = 2 ^ 52 * 2 powi (e - 52)"
proof -
  have "(2::rat) powi e = 2 powi (52 + (e - 52))" by simp
  also have "\<dots> = 2 powi 52 * 2 powi (e - 52)" by (rule pow2_add)
  also have "(2::rat) powi 52 = 2 ^ 52" by (simp add: power_int_def)
  finally show ?thesis .
qed

lemma fl_error: "\<bar>fl x - x\<bar> \<le> eps * \<bar>x\<bar>"
proof (cases "x = 0")
  case True
  then show ?thesis by simp
next
  case False
  define q :: rat where "q = 2 powi (expo x - 52)"
  have q: "0 < q" unfolding q_def by simp
  define r where "r = round_even (x / q)"
  have fx: "fl x = of_int r * q" using False unfolding fl_def Let_def q_def r_def by simp
  have "fl x - x = (of_int r - x / q) * q" unfolding fx using q by (simp add: field_simps)
  then have "\<bar>fl x - x\<bar> = \<bar>of_int r - x / q\<bar> * q" using q by (simp add: abs_mult)
  also have "\<dots> \<le> (1 / 2) * q"
    using round_even_bounds [of "x / q"] q unfolding r_def by (intro mult_right_mono) simp_all
  also have "\<dots> = 2 powi (expo x - 53)"
  proof -
    have "(2::rat) powi (expo x - 52) = 2 powi ((expo x - 53) + 1)" by simp
    also have "\<dots> = 2 * 2 powi (expo x - 53)" by (rule pow2_Suc)
    finally show ?thesis unfolding q_def by simp
  qed
  also have "\<dots> = 2 powi (expo x) * eps" by (rule pow2_53)
  also have "\<dots> \<le> \<bar>x\<bar> * eps"
    using expo_bounds(1) [OF False] by (intro mult_right_mono) (simp_all add: eps_def)
  finally show ?thesis by (simp add: mult.commute)
qed

lemma eps_pos: "0 < eps" "eps < 1"
  by (simp_all add: eps_def)

lemma fl_pos: "0 < x \<Longrightarrow> 0 < fl x"
proof -
  assume x: "0 < x"
  have "x - fl x \<le> eps * x" using fl_error [of x] x by (simp add: abs_le_iff)
  moreover have "eps * x < 1 * x" using x eps_pos by (intro mult_strict_right_mono)
  ultimately show ?thesis by linarith
qed

lemma fl_neg: "x < 0 \<Longrightarrow> fl x < 0"
  using fl_pos [of "- x"] by (simp add: fl_minus)

lemma fl_neg_iff: "fl x < 0 \<longleftrightarrow> x < 0"
proof
  assume n: "fl x < 0"
  show "x < 0"
  proof (rule ccontr)
    assume "\<not> x < 0"
    then consider "x = 0" | "0 < x" by fastforce
    then show False using n fl_pos [of x] by cases simp_all
  qed
qed (rule fl_neg)

lemma fl_pos_bounds:
  assumes "0 < x"
  shows "2 powi (expo x) \<le> fl x" "fl x \<le> 2 powi (expo x + 1)"
proof -
  have nz: "x \<noteq> 0" using assms by simp
  define q :: rat where "q = 2 powi (expo x - 52)"
  have q: "0 < q" unfolding q_def by simp
  have fx: "fl x = of_int (round_even (x / q)) * q" using nz unfolding fl_def Let_def q_def by simp
  have e: "(2::rat) powi (expo x) = 2 ^ 52 * q" unfolding q_def by (rule pow2_52)
  have e1: "(2::rat) powi (expo x + 1) = 2 ^ 53 * q" unfolding pow2_Suc e by simp
  have "2 ^ 52 * q \<le> x" using expo_bounds(1) [OF nz] assms unfolding e by simp
  then have "of_int (2 ^ 52) \<le> x / q" using q by (simp add: pos_le_divide_eq)
  then have "round_even (of_int (2 ^ 52)) \<le> round_even (x / q)" by (rule round_even_mono)
  then have "(of_int (2 ^ 52) :: rat) \<le> of_int (round_even (x / q))"
    unfolding round_even_of_int by (simp only: of_int_le_iff)
  then have "of_int (2 ^ 52) * q \<le> of_int (round_even (x / q)) * q"
    using q by (intro mult_right_mono) simp_all
  then show "2 powi (expo x) \<le> fl x" unfolding fx e by simp
  have "x \<le> 2 ^ 53 * q" using expo_bounds(2) [OF nz] assms unfolding e1 by simp
  then have "x / q \<le> of_int (2 ^ 53)" using q by (simp add: pos_divide_le_eq)
  then have "round_even (x / q) \<le> round_even (of_int (2 ^ 53))" by (rule round_even_mono)
  then have "(of_int (round_even (x / q)) :: rat) \<le> of_int (2 ^ 53)"
    unfolding round_even_of_int by (simp only: of_int_le_iff)
  then have "of_int (round_even (x / q)) * q \<le> of_int (2 ^ 53) * q"
    using q by (intro mult_right_mono) simp_all
  then show "fl x \<le> 2 powi (expo x + 1)" unfolding fx e1 by simp
qed

lemma expo_mono_pos:
  assumes "0 < x" "x \<le> y"
  shows "expo x \<le> expo y"
proof -
  have "x \<noteq> 0" "y \<noteq> 0" using assms by simp_all
  note bx = expo_bounds [OF this(1)] and by' = expo_bounds [OF this(2)]
  have "2 powi (expo x) < (2::rat) powi (expo y + 1)" using bx(1) by'(2) assms by simp
  then show ?thesis using pow2_mono [of "expo y + 1" "expo x"] by linarith
qed

lemma fl_mono_pos:
  assumes "0 < x" "x \<le> y"
  shows "fl x \<le> fl y"
proof (cases "expo x = expo y")
  case True
  define q :: rat where "q = 2 powi (expo x - 52)"
  have q: "0 < q" unfolding q_def by simp
  have "x / q \<le> y / q" using assms q by (simp add: divide_right_mono)
  then have "round_even (x / q) \<le> round_even (y / q)" by (rule round_even_mono)
  then have "(of_int (round_even (x / q)) :: rat) * q \<le> of_int (round_even (y / q)) * q"
    using q by (intro mult_right_mono) simp_all
  then show ?thesis using assms True unfolding fl_def Let_def q_def by simp
next
  case False
  then have "expo x + 1 \<le> expo y" using expo_mono_pos [OF assms] by simp
  then have "(2::rat) powi (expo x + 1) \<le> 2 powi (expo y)" by (rule pow2_mono)
  moreover have "fl x \<le> 2 powi (expo x + 1)" using assms by (intro fl_pos_bounds)
  moreover have "2 powi (expo y) \<le> fl y" using assms by (intro fl_pos_bounds) simp
  ultimately show ?thesis by linarith
qed

lemma fl_mono:
  assumes "x \<le> y"
  shows "fl x \<le> fl y"
proof -
  consider "0 < x" | "y < 0" | "x \<le> 0" "0 \<le> y" by linarith
  then show ?thesis
  proof cases
    case 1
    then show ?thesis using assms by (rule fl_mono_pos)
  next
    case 2
    then have "fl (- y) \<le> fl (- x)" using assms by (intro fl_mono_pos) simp_all
    then show ?thesis by (simp add: fl_minus)
  next
    case 3
    have "fl x \<le> 0" using 3(1) fl_neg [of x] by (cases "x = 0") simp_all
    moreover have "0 \<le> fl y" using 3(2) fl_pos [of y] by (cases "y = 0") simp_all
    ultimately show ?thesis by simp
  qed
qed

lemma fl_of_int:
  assumes "\<bar>n\<bar> < 2 ^ 53"
  shows "fl (of_int n) = of_int n"
proof (cases "n = 0")
  case True
  then show ?thesis by simp
next
  case False
  define x :: rat where "x = of_int n"
  have nz: "x \<noteq> 0" using False unfolding x_def by simp
  have "\<bar>x\<bar> < 2 ^ 53" unfolding x_def using assms
    by (metis of_int_abs of_int_less_numeral_power_cancel_iff)
  then have "2 powi (expo x) < (2::rat) powi 53" using expo_bounds(1) [OF nz] by (simp add: power_int_def)
  then have "expo x < 53" using pow2_mono [of 53 "expo x"] by linarith
  then have k: "0 \<le> 52 - expo x" by simp
  define m where "m = nat (52 - expo x)"
  have "(2::rat) powi (expo x - 52) = 2 powi (- int m)" unfolding m_def using k by simp
  also have "\<dots> = 1 / 2 ^ m" by (simp add: power_int_minus field_simps)
  finally have q: "(2::rat) powi (expo x - 52) = 1 / 2 ^ m" .
  have "x / (1 / 2 ^ m) = of_int (n * 2 ^ m)" unfolding x_def by simp
  then have "round_even (x / (1 / 2 ^ m)) = n * 2 ^ m" by (simp only: round_even_of_int)
  then have "fl x = of_int (n * 2 ^ m) * (1 / 2 ^ m)" using nz unfolding fl_def Let_def q by simp
  then show ?thesis unfolding x_def by simp
qed

lemma fl_numeral [simp]: "fl 1 = 1" "fl 3 = 3" "fl 5 = 5"
  using fl_of_int [of 1] fl_of_int [of 3] fl_of_int [of 5] by simp_all

lemma fl_nonneg: "0 \<le> x \<Longrightarrow> 0 \<le> fl x"
  using fl_mono [of 0 x] by simp

lemma fl_le: "0 \<le> x \<Longrightarrow> fl x \<le> (1 + eps) * x"
  using fl_error [of x] by (simp add: abs_le_iff algebra_simps)

lemma fl_ge: "0 \<le> x \<Longrightarrow> (1 - eps) * x \<le> fl x"
  using fl_error [of x] by (simp add: abs_le_iff algebra_simps)

lemma fl_abs_error:
  assumes "\<bar>x\<bar> \<le> 4096"
  shows "\<bar>fl x - x\<bar> \<le> 1 / 1000000000000"
proof -
  have "eps * \<bar>x\<bar> \<le> eps * 4096" using assms eps_pos by (intro mult_left_mono) simp_all
  also have "\<dots> \<le> 1 / 1000000000000" by (simp add: eps_def)
  finally show ?thesis using fl_error [of x] by linarith
qed

subsection \<open>Sampling an axis\<close>

lemma fl_2048: "fl 2048 = 2048"
  using fl_of_int [of 2048] by simp

lemma span_nonneg: "0 \<le> np_max r - np_min r"
  by (simp add: np_max_def np_min_def)

lemma densify_num: "3 \<le> nsamples r"
proof -
  have "0 \<le> fl (np_max r - np_min r)" using span_nonneg by (rule fl_nonneg)
  then have "fl 3 \<le> fl (fl (np_max r - np_min r) + 3)" by (intro fl_mono) simp
  then have "(3::rat) \<le> fl (fl (np_max r - np_min r) + 3)" by simp
  then have "(3::int) \<le> \<lceil>fl (fl (np_max r - np_min r) + 3)\<rceil>" by linarith
  then show ?thesis unfolding nsamples_def by linarith
qed

lemma densify_eq: "densify r = map (sample r) [0..<nsamples r]"
proof -
  have "nsamples r \<noteq> 1" using densify_num [of r] by simp
  then show ?thesis
    unfolding densify_def linspace_def Let_def
    by (simp add: sample_def [abs_def] fstep_def nsamples_def)
qed

lemma densify_nonempty: "densify r \<noteq> []"
  using densify_num [of r] by (simp add: densify_eq)

lemma sample_in_densify: "i < nsamples r \<Longrightarrow> sample r i \<in> set (densify r)"
  unfolding densify_eq by simp

lemma densify_sample: "x \<in> set (densify r) \<Longrightarrow> \<exists>i<nsamples r. x = sample r i"
  unfolding densify_eq by auto

lemma sample_last: "sample r (nsamples r - 1) = np_max r"
  by (simp add: sample_def)

lemma sample_first: "is_double (np_min r) \<Longrightarrow> sample r 0 = np_min r"
  using densify_num [of r] by (simp add: sample_def is_double_def)

lemma np_max_in_densify: "np_max r \<in> set (densify r)"
proof -
  have "nsamples r - 1 < nsamples r" using densify_num [of r] by linarith
  then have "sample r (nsamples r - 1) \<in> set (densify r)" by (rule sample_in_densify)
  then show ?thesis unfolding sample_last .
qed

lemma np_min_in_densify: "is_double (np_min r) \<Longrightarrow> np_min r \<in> set (densify r)"
proof -
  assume d: "is_double (np_min r)"
  have "0 < nsamples r" using densify_num [of r] by linarith
  then show ?thesis using sample_in_densify [of 0 r] by (simp add: sample_first [OF d])
qed

text \<open>
  The number of samples and the step, for an axis within \<open>\<plusminus>1024\<close> degrees: the number
  of intervals exceeds the rounded span by at least one, so the step is at most one.
\<close>

lemma axis_span:
  assumes "- 1024 \<le> np_min r" "np_max r \<le> 1024"
  shows "np_max r - np_min r \<le> 2048" "0 \<le> fl (np_max r - np_min r)"
        "fl (np_max r - np_min r) \<le> 2048"
        "\<bar>fl (np_max r - np_min r) - (np_max r - np_min r)\<bar> \<le> 1 / 1000000000000"
proof -
  show le: "np_max r - np_min r \<le> 2048" using assms by linarith
  show "0 \<le> fl (np_max r - np_min r)" using span_nonneg by (rule fl_nonneg)
  show "fl (np_max r - np_min r) \<le> 2048" using fl_mono [OF le] by (simp add: fl_2048)
  show "\<bar>fl (np_max r - np_min r) - (np_max r - np_min r)\<bar> \<le> 1 / 1000000000000"
    using le span_nonneg [of r] by (intro fl_abs_error) linarith
qed

lemma axis_count:
  assumes "- 1024 \<le> np_min r" "np_max r \<le> 1024"
  shows "fl (np_max r - np_min r) + 1 \<le> of_nat (nsamples r - 1)"
        "of_nat (nsamples r - 1) \<le> (2052::rat)"
        "(2::rat) \<le> of_nat (nsamples r - 1)"
proof -
  let ?d = "fl (np_max r - np_min r)"
  note s = axis_span [OF assms]
  have "\<bar>?d + 3\<bar> \<le> 4096" using s(2,3) by linarith
  then have "\<bar>fl (?d + 3) - (?d + 3)\<bar> \<le> 1 / 1000000000000" by (rule fl_abs_error)
  then have e: "?d + 3 - 1 / 1000000000000 \<le> fl (?d + 3)" "fl (?d + 3) \<le> ?d + 3 + 1 / 1000000000000"
    by linarith+
  have n3: "3 \<le> nsamples r" by (rule densify_num)
  have "0 \<le> fl (?d + 3)" using e(1) s(2) by linarith
  then have c0: "0 \<le> \<lceil>fl (?d + 3)\<rceil>" by linarith
  have nn: "(of_nat (nsamples r) :: rat) = of_int \<lceil>fl (?d + 3)\<rceil>"
    unfolding nsamples_def using c0 by simp
  have n1: "(of_nat (nsamples r - 1) :: rat) = of_nat (nsamples r) - 1"
    using n3 by (simp add: of_nat_diff)
  have lo: "fl (?d + 3) \<le> of_nat (nsamples r)" unfolding nn by linarith
  have hi: "of_nat (nsamples r) < fl (?d + 3) + 1" unfolding nn by linarith
  show "?d + 1 \<le> of_nat (nsamples r - 1)" unfolding n1 using lo e(1) by simp
  show "of_nat (nsamples r - 1) \<le> (2052::rat)"
  proof -
    have "(of_nat (nsamples r) :: rat) < 2053" using hi e(2) s(3) by simp
    then have "nsamples r < 2053" by (metis of_nat_less_iff of_nat_numeral)
    then have "nsamples r - 1 \<le> 2052" by simp
    then show ?thesis by (metis of_nat_le_iff of_nat_numeral)
  qed
  show "(2::rat) \<le> of_nat (nsamples r - 1)" using n3 unfolding n1 by simp
qed

lemma axis_step:
  assumes "- 1024 \<le> np_min r" "np_max r \<le> 1024"
  shows "0 \<le> fstep r" "fstep r \<le> 1"
        "fstep r \<le> (1 + eps) * (fl (np_max r - np_min r) / of_nat (nsamples r - 1))"
        "fl (np_max r - np_min r) / of_nat (nsamples r - 1) - 1 / 1000000000000 \<le> fstep r"
proof -
  let ?d = "fl (np_max r - np_min r)" and ?N = "of_nat (nsamples r - 1) :: rat"
  note s = axis_span [OF assms] and c = axis_count [OF assms]
  define q where "q = ?d / ?N"
  have N: "0 < ?N" using c(3) by linarith
  have q0: "0 \<le> q" unfolding q_def using s(2) N by simp
  have q1: "q \<le> 1" unfolding q_def using c(1) N by (simp add: pos_divide_le_eq)
  have f: "fstep r = fl q" unfolding fstep_def q_def ..
  show "0 \<le> fstep r" unfolding f using q0 by (rule fl_nonneg)
  show "fstep r \<le> 1" unfolding f using fl_mono [OF q1] by simp
  show "fstep r \<le> (1 + eps) * (?d / ?N)" unfolding f using q0 unfolding q_def by (rule fl_le)
  have "\<bar>q\<bar> \<le> 4096" using q0 q1 by linarith
  then have "\<bar>fl q - q\<bar> \<le> 1 / 1000000000000" by (rule fl_abs_error)
  then have "q - 1 / 1000000000000 \<le> fl q" by linarith
  then show "?d / ?N - 1 / 1000000000000 \<le> fstep r" unfolding f q_def .
qed

lemma eps_cube: "(1 + eps) * ((1 + eps) * (1 + eps)) \<le> 1 + 4 * eps"
  by (simp add: eps_def)

text \<open>
  Before the last sample the accumulated offset \<open>fl (i * step)\<close> stays within the exact
  span: three roundings cannot make up for the missing step.
\<close>

lemma offset_le_span:
  assumes "- 1024 \<le> np_min r" "np_max r \<le> 1024" "i < nsamples r - 1"
  shows "fl (of_nat i * fstep r) \<le> np_max r - np_min r"
proof -
  define d where "d = np_max r - np_min r"
  define d' where "d' = fl d"
  define N :: rat where "N = of_nat (nsamples r - 1)"
  define c where "c = 1 + eps"
  define st where "st = fstep r"
  have k: "d' + 1 \<le> N" "N \<le> 2052" "2 \<le> N"
    using axis_count [OF assms(1,2)] unfolding d'_def d_def N_def by simp_all
  have t: "0 \<le> st" "st \<le> 1" "st \<le> c * (d' / N)"
    using axis_step(1-3) [OF assms(1,2)] unfolding d'_def d_def N_def st_def c_def by simp_all
  have d0: "0 \<le> d" unfolding d_def by (rule span_nonneg)
  have c1: "1 \<le> c" "0 \<le> c" unfolding c_def using eps_pos by simp_all
  have N: "0 < N" using k(3) by linarith
  have "Suc i \<le> nsamples r - 1" using assms(3) by simp
  then have "(of_nat (Suc i) :: rat) \<le> N" unfolding N_def by (simp only: of_nat_le_iff)
  then have i: "of_nat i \<le> N - 1" by simp
  have N1: "0 \<le> N - 1" using k(3) by linarith
  have dd: "d' \<le> c * d" unfolding d'_def c_def using d0 by (rule fl_le)
  have "d' / N \<le> (c * d) / N" using dd N by (simp add: divide_right_mono)
  then have "c * (d' / N) \<le> c * ((c * d) / N)" using c1(2) by (rule mult_left_mono)
  then have st: "st \<le> c * ((c * d) / N)" using t(3) by linarith
  have "of_nat i * st \<le> (N - 1) * st" using i t(1) by (rule mult_right_mono)
  also have "\<dots> \<le> (N - 1) * (c * ((c * d) / N))" using st N1 by (rule mult_left_mono)
  finally have ist: "of_nat i * st \<le> (N - 1) * (c * ((c * d) / N))" .
  have "0 \<le> of_nat i * st" using t(1) by simp
  then have "fl (of_nat i * st) \<le> c * (of_nat i * st)" unfolding c_def by (rule fl_le)
  also have "\<dots> \<le> c * ((N - 1) * (c * ((c * d) / N)))" using ist c1(2) by (rule mult_left_mono)
  also have "\<dots> = ((c * (c * c)) * (N - 1) / N) * d" by (simp add: field_simps)
  also have "\<dots> \<le> 1 * d"
  proof (rule mult_right_mono [OF _ d0])
    have "(c * (c * c)) * (N - 1) \<le> (1 + 4 * eps) * (N - 1)"
      unfolding c_def using eps_cube N1 by (rule mult_right_mono)
    also have "\<dots> \<le> N" using k(2) unfolding eps_def by simp
    finally show "(c * (c * c)) * (N - 1) / N \<le> 1" using N by (simp add: pos_divide_le_eq)
  qed
  finally show ?thesis unfolding st_def d_def by simp
qed

lemma sample_bounds:
  assumes "is_double (np_min r)" "is_double (np_max r)"
      and "- 1024 \<le> np_min r" "np_max r \<le> 1024" "i < nsamples r"
  shows "np_min r \<le> sample r i" "sample r i \<le> np_max r"
proof -
  have mm: "np_min r \<le> np_max r" using span_nonneg [of r] by simp
  have "np_min r \<le> sample r i \<and> sample r i \<le> np_max r"
  proof (cases "i = nsamples r - 1")
    case True
    then show ?thesis using mm by (simp add: sample_def)
  next
    case False
    then have i: "i < nsamples r - 1" using assms(5) by simp
    have s: "sample r i = fl (fl (of_nat i * fstep r) + np_min r)" using False by (simp add: sample_def)
    have "0 \<le> of_nat i * fstep r" using axis_step(1) [OF assms(3,4)] by simp
    then have "0 \<le> fl (of_nat i * fstep r)" by (rule fl_nonneg)
    then have "fl (np_min r) \<le> fl (fl (of_nat i * fstep r) + np_min r)" by (intro fl_mono) simp
    then have lo: "np_min r \<le> sample r i" using assms(1) unfolding s is_double_def by simp
    have "fl (of_nat i * fstep r) + np_min r \<le> np_max r"
      using offset_le_span [OF assms(3,4) i] by simp
    then have "fl (fl (of_nat i * fstep r) + np_min r) \<le> fl (np_max r)" by (rule fl_mono)
    then have "sample r i \<le> np_max r" using assms(2) unfolding s is_double_def by simp
    then show ?thesis using lo by simp
  qed
  then show "np_min r \<le> sample r i" "sample r i \<le> np_max r" by simp_all
qed

lemma densify_bounds:
  assumes "is_double (np_min r)" "is_double (np_max r)"
      and "- 1024 \<le> np_min r" "np_max r \<le> 1024" "x \<in> set (densify r)"
  shows "np_min r \<le> x \<and> x \<le> np_max r"
proof -
  obtain i where "i < nsamples r" "x = sample r i" using densify_sample [OF assms(5)] by blast
  then show ?thesis using sample_bounds [OF assms(1-4), of i] by simp
qed

text \<open>Consecutive samples are at most two degrees apart.\<close>

lemma sample_gap:
  assumes "is_double (np_min r)" "is_double (np_max r)"
      and "- 1024 \<le> np_min r" "np_max r \<le> 1024" "Suc i < nsamples r"
  shows "sample r (Suc i) \<le> sample r i + 2"
proof -
  define mi where "mi = np_min r"
  define ma where "ma = np_max r"
  define st where "st = fstep r"
  define N :: rat where "N = of_nat (nsamples r - 1)"
  define d' where "d' = fl (ma - mi)"
  define T where "T j = fl (of_nat j * st)" for j :: nat
  have k: "d' + 1 \<le> N" "N \<le> 2052" "2 \<le> N"
    using axis_count [OF assms(3,4)] unfolding d'_def mi_def ma_def N_def by simp_all
  have t: "0 \<le> st" "st \<le> 1" "d' / N - 1 / 1000000000000 \<le> st"
    using axis_step(1,2,4) [OF assms(3,4)] unfolding d'_def mi_def ma_def N_def st_def by simp_all
  have sp: "\<bar>d' - (ma - mi)\<bar> \<le> 1 / 1000000000000"
    using axis_span(4) [OF assms(3,4)] unfolding d'_def mi_def ma_def .
  have N: "0 < N" using k(3) by linarith
  have il: "i < nsamples r - 1" using assms(5) by simp
  have iN: "(of_nat i :: rat) \<le> N - 1"
  proof -
    have "Suc i \<le> nsamples r - 1" using assms(5) by simp
    then have "(of_nat (Suc i) :: rat) \<le> N" unfolding N_def by (simp only: of_nat_le_iff)
    then show ?thesis by simp
  qed
  have Terr: "\<bar>T j - of_nat j * st\<bar> \<le> 1 / 1000000000000" if "of_nat j \<le> N" for j
  proof -
    have "of_nat j * st \<le> N * 1" using that t(1,2) N by (intro mult_mono) simp_all
    moreover have "0 \<le> of_nat j * st" using t(1) by simp
    ultimately have "\<bar>of_nat j * st\<bar> \<le> 4096" using k(2) by linarith
    then show ?thesis unfolding T_def by (rule fl_abs_error)
  qed
  have serr: "\<bar>sample r j - (T j + mi)\<bar> \<le> 1 / 1000000000000" if "j < nsamples r - 1" for j
  proof -
    have s: "sample r j = fl (T j + mi)" using that by (simp add: sample_def T_def st_def mi_def)
    have "0 \<le> of_nat j * st" using t(1) by simp
    then have "0 \<le> T j" unfolding T_def by (rule fl_nonneg)
    moreover have "T j \<le> ma - mi"
      using offset_le_span [OF assms(3,4) that] unfolding T_def st_def ma_def mi_def .
    ultimately have "\<bar>T j + mi\<bar> \<le> 4096" using assms(3,4) unfolding mi_def ma_def by linarith
    then show ?thesis unfolding s by (rule fl_abs_error)
  qed
  have si: "T i + mi - 1 / 1000000000000 \<le> sample r i" using serr [OF il] by linarith
  have Ti: "of_nat i * st - 1 / 1000000000000 \<le> T i"
    using Terr [of i] iN by linarith
  show ?thesis
  proof (cases "Suc i = nsamples r - 1")
    case False
    then have l: "Suc i < nsamples r - 1" using assms(5) by simp
    then have "Suc (Suc i) \<le> nsamples r - 1" by simp
    then have "(of_nat (Suc (Suc i)) :: rat) \<le> N" unfolding N_def by (simp only: of_nat_le_iff)
    then have "(of_nat (Suc i) :: rat) \<le> N" by simp
    then have "T (Suc i) \<le> of_nat (Suc i) * st + 1 / 1000000000000" using Terr [of "Suc i"] by linarith
    moreover have "of_nat (Suc i) * st = of_nat i * st + st" by (simp add: algebra_simps)
    moreover have "sample r (Suc i) \<le> T (Suc i) + mi + 1 / 1000000000000" using serr [OF l] by linarith
    ultimately show ?thesis using si Ti t(2) by linarith
  next
    case True
    then have s: "sample r (Suc i) = ma" by (simp add: sample_def ma_def)
    have "(of_nat (Suc i) :: rat) = N" unfolding N_def using True by simp
    then have i: "(of_nat i :: rat) = N - 1" by simp
    define q where "q = d' / N"
    define e :: rat where "e = 1 / 1000000000000"
    define P where "P = (N - 1) * st"
    define R where "R = (N - 1) * e"
    have q1: "q \<le> 1" unfolding q_def using k(1) N by (simp add: pos_divide_le_eq)
    have q2: "(N - 1) * q = d' - q" unfolding q_def using N by (simp add: field_simps)
    have N1: "0 \<le> N - 1" using k(3) by linarith
    have "q - e \<le> st" using t(3) unfolding q_def e_def .
    then have "(N - 1) * (q - e) \<le> P" unfolding P_def using N1 by (rule mult_left_mono)
    moreover have "(N - 1) * (q - e) = d' - q - R"
      unfolding R_def using q2 by (simp add: algebra_simps)
    moreover have "R \<le> 2052 * e"
      unfolding R_def using k(2) by (intro mult_right_mono) (simp_all add: e_def)
    moreover have "2052 * e \<le> 1 / 2" by (simp add: e_def)
    ultimately have "d' - 3 / 2 \<le> P" using q1 by linarith
    then have "d' - 3 / 2 \<le> of_nat i * st" unfolding P_def i .
    moreover have "ma - mi - 1 / 1000000000000 \<le> d'" using sp by linarith
    ultimately show ?thesis unfolding s using si Ti by linarith
  qed
qed

subsection \<open>Columns and rows of the samples\<close>

lemma for_each_length: "for_each f ps = Inr ys \<Longrightarrow> length ys = length ps"
  by (induction ps arbitrary: ys) (auto split: sum.splits)

lemma for_each_srtm_tile:
  "for_each srtm_tile ps =
     (if \<forall>p\<in>set ps. snd p < 60 then Inr (map srtm_name ps) else Inl AssertionError)"
  by (induction ps) (auto simp: srtm_tile_def srtm_name_def Let_def fl_neg_iff)

lemma zx_mono: "a \<le> b \<Longrightarrow> zx a \<le> zx b"
proof -
  assume "a \<le> b"
  then have "fl (a + 180) \<le> fl (b + 180)" by (intro fl_mono) simp
  then have "fl (a + 180) / 5 \<le> fl (b + 180) / 5" by simp
  then have "fl (fl (a + 180) / 5) \<le> fl (fl (b + 180) / 5)" by (rule fl_mono)
  then show ?thesis unfolding zx_def by (rule ceiling_mono)
qed

lemma zy_antimono: "a \<le> b \<Longrightarrow> zy b \<le> zy a"
proof -
  assume "a \<le> b"
  then have "fl (a - 60) \<le> fl (b - 60)" by (intro fl_mono) simp
  then have "fl (b - 60) / - 5 \<le> fl (a - 60) / - 5" by simp
  then have "fl (fl (b - 60) / - 5) \<le> fl (fl (a - 60) / - 5)" by (rule fl_mono)
  then show ?thesis unfolding zy_def by (rule ceiling_mono)
qed

text \<open>
  The value whose ceiling is the column, and the one whose ceiling is the row, are
  within \<open>10^-11\<close> of the exact quotients.
\<close>

lemma zx_error:
  assumes "- 1024 \<le> s" "s \<le> 1024"
  shows "\<bar>fl (fl (s + 180) / 5) - (s / 5 + 36)\<bar> \<le> 2 / 1000000000000"
proof -
  define a where "a = fl (s + 180)"
  have "\<bar>s + 180\<bar> \<le> 4096" using assms by linarith
  then have 1: "\<bar>a - (s + 180)\<bar> \<le> 1 / 1000000000000" unfolding a_def by (rule fl_abs_error)
  define b where "b = a / 5"
  have b: "5 * b = a" unfolding b_def by simp
  have "\<bar>b\<bar> \<le> 4096" using 1 assms b by linarith
  then have "\<bar>fl b - b\<bar> \<le> 1 / 1000000000000" by (rule fl_abs_error)
  then have "\<bar>fl b - (s / 5 + 36)\<bar> \<le> 2 / 1000000000000" using 1 b by linarith
  then show ?thesis unfolding b_def a_def .
qed

lemma zy_error:
  assumes "- 1024 \<le> s" "s \<le> 1024"
  shows "\<bar>fl (fl (s - 60) / - 5) - (12 - s / 5)\<bar> \<le> 2 / 1000000000000"
proof -
  define a where "a = fl (s - 60)"
  have "\<bar>s - 60\<bar> \<le> 4096" using assms by linarith
  then have 1: "\<bar>a - (s - 60)\<bar> \<le> 1 / 1000000000000" unfolding a_def by (rule fl_abs_error)
  define b where "b = a / - 5"
  have b: "- 5 * b = a" unfolding b_def by simp
  have "\<bar>b\<bar> \<le> 4096" using 1 assms b by linarith
  then have "\<bar>fl b - b\<bar> \<le> 1 / 1000000000000" by (rule fl_abs_error)
  then have "\<bar>fl b - (12 - s / 5)\<bar> \<le> 2 / 1000000000000" using 1 b by linarith
  then show ?thesis unfolding b_def a_def .
qed

lemma zx_step:
  assumes "- 1024 \<le> s" "s \<le> 1024" "- 1024 \<le> s'" "s' \<le> 1024" "s' \<le> s + 2"
  shows "zx s' \<le> zx s + 1"
proof -
  define A where "A = fl (fl (s' + 180) / 5)"
  define B where "B = fl (fl (s + 180) / 5)"
  have "\<bar>A - (s' / 5 + 36)\<bar> \<le> 2 / 1000000000000" unfolding A_def using assms(3,4) by (rule zx_error)
  moreover have "\<bar>B - (s / 5 + 36)\<bar> \<le> 2 / 1000000000000" unfolding B_def using assms(1,2) by (rule zx_error)
  ultimately have "A < B + 1" using assms(5) by linarith
  then have "(of_int \<lceil>A\<rceil> :: rat) < of_int \<lceil>B\<rceil> + 2" by linarith
  then have "(of_int \<lceil>A\<rceil> :: rat) < of_int (\<lceil>B\<rceil> + 2)" by simp
  then have "\<lceil>A\<rceil> < \<lceil>B\<rceil> + 2" by (simp only: of_int_less_iff)
  then show ?thesis unfolding zx_def A_def B_def by simp
qed

lemma zy_step:
  assumes "- 1024 \<le> s" "s \<le> 1024" "- 1024 \<le> s'" "s' \<le> 1024" "s' \<le> s + 2"
  shows "zy s \<le> zy s' + 1"
proof -
  define A where "A = fl (fl (s - 60) / - 5)"
  define B where "B = fl (fl (s' - 60) / - 5)"
  have "\<bar>A - (12 - s / 5)\<bar> \<le> 2 / 1000000000000" unfolding A_def using assms(1,2) by (rule zy_error)
  moreover have "\<bar>B - (12 - s' / 5)\<bar> \<le> 2 / 1000000000000" unfolding B_def using assms(3,4) by (rule zy_error)
  ultimately have "A < B + 1" using assms(5) by linarith
  then have "(of_int \<lceil>A\<rceil> :: rat) < of_int \<lceil>B\<rceil> + 2" by linarith
  then have "(of_int \<lceil>A\<rceil> :: rat) < of_int (\<lceil>B\<rceil> + 2)" by simp
  then have "\<lceil>A\<rceil> < \<lceil>B\<rceil> + 2" by (simp only: of_int_less_iff)
  then show ?thesis unfolding zy_def A_def B_def by simp
qed

text \<open>A sequence of integers that never rises by more than one takes every value between its ends.\<close>

lemma int_steps:
  fixes f :: "nat \<Rightarrow> int"
  assumes "\<And>i. i < m \<Longrightarrow> f (Suc i) \<le> f i + 1" "f 0 \<le> k" "k \<le> f m"
  shows "\<exists>i\<le>m. f i = k"
  using assms
proof (induction m)
  case 0
  then show ?case by simp
next
  case (Suc m)
  show ?case
  proof (cases "k \<le> f m")
    case True
    then obtain i where "i \<le> m" "f i = k" using Suc.IH Suc.prems(1,2) by (metis less_Suc_eq)
    then show ?thesis by (metis le_Suc_eq)
  next
    case False
    then have "f (Suc m) = k" using Suc.prems(1) [of m] Suc.prems(3) by simp
    then show ?thesis by blast
  qed
qed

lemma zx_image:
  assumes "is_double (np_min r)" "is_double (np_max r)" "- 1024 \<le> np_min r" "np_max r \<le> 1024"
  shows "zx ` set (densify r) = {zx (np_min r)..zx (np_max r)}"
proof (intro equalityI subsetI)
  fix k assume "k \<in> zx ` set (densify r)"
  then obtain s where "s \<in> set (densify r)" "k = zx s" by auto
  then show "k \<in> {zx (np_min r)..zx (np_max r)}"
    using densify_bounds [OF assms, of s] zx_mono by simp
next
  fix k assume k: "k \<in> {zx (np_min r)..zx (np_max r)}"
  define m where "m = nsamples r - 1"
  have n: "3 \<le> nsamples r" by (rule densify_num)
  have step: "zx (sample r (Suc i)) \<le> zx (sample r i) + 1" if "i < m" for i
  proof -
    have i: "Suc i < nsamples r" "i < nsamples r" using that unfolding m_def by simp_all
    note b = sample_bounds [OF assms i(1)] and b' = sample_bounds [OF assms i(2)]
    show ?thesis
      using sample_gap [OF assms i(1)] b b' assms(3,4) by (intro zx_step) linarith+
  qed
  have "zx (sample r 0) \<le> k" using k sample_first [OF assms(1)] by simp
  moreover have "k \<le> zx (sample r m)" using k unfolding m_def sample_last by simp
  ultimately obtain i where i: "i \<le> m" "zx (sample r i) = k"
    using int_steps [of m "\<lambda>i. zx (sample r i)" k] step by blast
  have "i < nsamples r" using i(1) n unfolding m_def by linarith
  then have "sample r i \<in> set (densify r)" by (rule sample_in_densify)
  then show "k \<in> zx ` set (densify r)" using i(2) by blast
qed

lemma zy_image:
  assumes "is_double (np_min r)" "is_double (np_max r)" "- 1024 \<le> np_min r" "np_max r \<le> 1024"
  shows "zy ` set (densify r) = {zy (np_max r)..zy (np_min r)}"
proof (intro equalityI subsetI)
  fix k assume "k \<in> zy ` set (densify r)"
  then obtain s where "s \<in> set (densify r)" "k = zy s" by auto
  then show "k \<in> {zy (np_max r)..zy (np_min r)}"
    using densify_bounds [OF assms, of s] zy_antimono by simp
next
  fix k assume k: "k \<in> {zy (np_max r)..zy (np_min r)}"
  define m where "m = nsamples r - 1"
  have n: "3 \<le> nsamples r" by (rule densify_num)
  have step: "- zy (sample r (Suc i)) \<le> - zy (sample r i) + 1" if "i < m" for i
  proof -
    have i: "Suc i < nsamples r" "i < nsamples r" using that unfolding m_def by simp_all
    note b = sample_bounds [OF assms i(1)] and b' = sample_bounds [OF assms i(2)]
    have "zy (sample r i) \<le> zy (sample r (Suc i)) + 1"
      using sample_gap [OF assms i(1)] b b' assms(3,4) by (intro zy_step) linarith+
    then show ?thesis by simp
  qed
  have "- zy (sample r 0) \<le> - k" using k sample_first [OF assms(1)] by simp
  moreover have "- k \<le> - zy (sample r m)" using k unfolding m_def sample_last by simp
  ultimately obtain i where i: "i \<le> m" "- zy (sample r i) = - k"
    using int_steps [of m "\<lambda>i. - zy (sample r i)" "- k"] step by blast
  have "i < nsamples r" using i(1) n unfolding m_def by linarith
  then have "sample r i \<in> set (densify r)" by (rule sample_in_densify)
  then show "k \<in> zy ` set (densify r)" using i(2) by force
qed

lemma np_ceil_nonneg: "0 \<le> x \<Longrightarrow> np_ceil x = (False, nat \<lceil>x\<rceil>)"
  unfolding np_ceil_def by (simp add: abs_of_nonneg)

lemma srtm_name_zone_str:
  assumes "-180 \<le> fst p" "snd p < 60"
  shows "srtm_name p = zone_str (zx (fst p), zy (snd p))"
proof -
  have "0 \<le> fl (fst p + 180)" using assms(1) by (intro fl_nonneg) simp
  then have "0 \<le> fl (fl (fst p + 180) / 5)" by (intro fl_nonneg) simp
  then have a: "np_ceil (fl (fl (fst p + 180) / 5)) = (False, nat (zx (fst p)))"
    unfolding zx_def by (rule np_ceil_nonneg)
  have "fl (snd p - 60) < 0" using assms(2) by (intro fl_neg) simp
  then have "0 \<le> fl (snd p - 60) / - 5" by simp
  then have "0 \<le> fl (fl (snd p - 60) / - 5)" by (rule fl_nonneg)
  then have b: "np_ceil (fl (fl (snd p - 60) / - 5)) = (False, nat (zy (snd p)))"
    unfolding zy_def by (rule np_ceil_nonneg)
  show ?thesis unfolding srtm_name_def zone_str_def a b by simp
qed

lemma srtm_zone_cases:
  "srtm_zone lon_ran lat_ran =
     (if \<forall>lat\<in>set (densify lat_ran). lat < 60
      then Inr (sort (remdups (map srtm_name (List.product (densify lon_ran) (densify lat_ran)))))
      else Inl AssertionError)"
proof (cases "\<forall>lat\<in>set (densify lat_ran). lat < 60")
  case True
  then have "\<forall>p\<in>set (List.product (densify lon_ran) (densify lat_ran)). snd p < 60" by auto
  then show ?thesis using True unfolding srtm_zone_def for_each_srtm_tile by simp
next
  case False
  then obtain lat where lat: "lat \<in> set (densify lat_ran)" "\<not> lat < 60" by blast
  have "hd (densify lon_ran) \<in> set (densify lon_ran)"
    using densify_nonempty [of lon_ran] by simp
  then have "(hd (densify lon_ran), lat) \<in> set (List.product (densify lon_ran) (densify lat_ran))"
    using lat(1) by simp
  then have ne: "\<not> (\<forall>p\<in>set (List.product (densify lon_ran) (densify lat_ran)). snd p < 60)"
    using lat(2) by force
  show ?thesis unfolding srtm_zone_def for_each_srtm_tile if_not_P [OF ne] if_not_P [OF False] by simp
qed

text \<open>
  The zones of an extent of doubles, longitudes within \<open>[-180, 1024]\<close> and latitudes
  within \<open>[-1024, 60)\<close>: every cell from the column of the western edge to the column
  of the eastern edge, and from the row of the northern edge to the row of the
  southern edge.
\<close>

lemma srtm_zone_set:
  assumes "is_double (np_min lon_ran)" "is_double (np_max lon_ran)"
      and "is_double (np_min lat_ran)" "is_double (np_max lat_ran)"
      and "-180 \<le> np_min lon_ran" "np_max lon_ran \<le> 1024"
      and "- 1024 \<le> np_min lat_ran" "np_max lat_ran < 60"
  shows "srtm_zone lon_ran lat_ran =
           Inr (sort (remdups (map zone_str
              (List.product [zx (np_min lon_ran)..zx (np_max lon_ran)]
                            [zy (np_max lat_ran)..zy (np_min lat_ran)]))))"
proof -
  let ?S1 = "set (densify lon_ran)" and ?S2 = "set (densify lat_ran)"
  have lo: "- 1024 \<le> np_min lon_ran" using assms(5) by linarith
  have hi: "np_max lat_ran \<le> 1024" using assms(8) by linarith
  note b1 = densify_bounds [OF assms(1,2) lo assms(6)]
   and b2 = densify_bounds [OF assms(3,4) assms(7) hi]
  have lt: "\<forall>lat\<in>?S2. lat < 60" using b2 assms(8) by fastforce
  have eq: "srtm_name p = zone_str (zx (fst p), zy (snd p))" if "p \<in> ?S1 \<times> ?S2" for p
  proof -
    have "-180 \<le> fst p" using that assms(5) b1 [of "fst p"] by auto
    moreover have "snd p < 60" using that lt by auto
    ultimately show ?thesis by (rule srtm_name_zone_str)
  qed
  have "srtm_name ` (?S1 \<times> ?S2) = (\<lambda>p. zone_str (zx (fst p), zy (snd p))) ` (?S1 \<times> ?S2)"
    using eq by (intro image_cong) auto
  also have "\<dots> = zone_str ` (zx ` ?S1 \<times> zy ` ?S2)" by force
  finally have "srtm_name ` (?S1 \<times> ?S2) =
      zone_str ` ({zx (np_min lon_ran)..zx (np_max lon_ran)} \<times> {zy (np_max lat_ran)..zy (np_min lat_ran)})"
    unfolding zx_image [OF assms(1,2) lo assms(6)] zy_image [OF assms(3,4) assms(7) hi] .
  then have "set (map srtm_name (List.product (densify lon_ran) (densify lat_ran))) =
      set (map zone_str (List.product [zx (np_min lon_ran)..zx (np_max lon_ran)]
                            [zy (np_max lat_ran)..zy (np_min lat_ran)]))"
    by simp
  then have "sort (remdups (map srtm_name (List.product (densify lon_ran) (densify lat_ran)))) =
      sort (remdups (map zone_str (List.product [zx (np_min lon_ran)..zx (np_max lon_ran)]
                            [zy (np_max lat_ran)..zy (np_min lat_ran)])))"
    by (simp only: sorted_list_of_set_sort_remdups [symmetric])
  then show ?thesis using lt unfolding srtm_zone_cases by simp
qed

subsection \<open>The degree-grid indexer\<close>

lemma is_double_of_int: "\<bar>n\<bar> < 2 ^ 53 \<Longrightarrow> is_double (of_int n)"
  unfolding is_double_def by (rule fl_of_int)

lemma is_double_numeral [simp]:
  "numeral n < (2::int) ^ 53 \<Longrightarrow> is_double (numeral n)"
  "numeral n < (2::int) ^ 53 \<Longrightarrow> is_double (- numeral n)"
  using is_double_of_int [of "numeral n"] is_double_of_int [of "- numeral n"] by simp_all

lemma is_double_0_1 [simp]: "is_double 0" "is_double 1"
  by (simp_all add: is_double_def)

lemma remdups_const:
  "xs \<noteq> [] \<Longrightarrow> \<forall>x\<in>set xs. x = z \<Longrightarrow> remdups xs = [z]"
proof (induction xs)
  case Nil
  then show ?case by simp
next
  case (Cons a xs)
  show ?case
  proof (cases "xs = []")
    case True
    then show ?thesis using Cons.prems by simp
  next
    case False
    then have "remdups xs = [z]" using Cons by simp
    moreover have "a \<in> set xs" using False Cons.prems by (cases xs) auto
    ultimately show ?thesis by simp
  qed
qed

lemma digit_char_0: "digit_char 0 = CHR ''0''"
  by code_simp

lemma fmt_0f_two_digits: "n < 100 \<Longrightarrow> fmt_0f 2 (False, n) = [digit_char (n div 10), digit_char (n mod 10)]"
proof (cases "n < 10")
  case True
  then show ?thesis by (simp add: fmt_0f_def digits.simps [of n] digit_char_0)
next
  case False
  assume "n < 100"
  then have "n div 10 < 10" by simp
  then show ?thesis using False
    by (simp add: fmt_0f_def digits.simps [of n] digits.simps [of "n div 10"])
qed

lemma np_min_max_pair: "a \<le> b \<Longrightarrow> np_min (a, b) = a \<and> np_max (a, b) = b"
  by (simp add: np_min_def np_max_def)

text \<open>
  The edges of a cell. The closed edges (east and south) are exact: a multiple of 5
  degrees is a double and rounding is monotone. At the open edges (west and north) a
  point closer to the edge than the rounding error can be rounded onto it.
\<close>

lemma zx_cell_upper:
  assumes "s \<le> 5 * of_int k - 180" "\<bar>k\<bar> < 1000"
  shows "zx s \<le> k"
proof -
  have "s + 180 \<le> of_int (5 * k)" using assms(1) by simp
  then have "fl (s + 180) \<le> fl (of_int (5 * k))" by (rule fl_mono)
  moreover have "fl (of_int (5 * k)) = of_int (5 * k)" using assms(2) by (intro fl_of_int) simp
  ultimately have "fl (s + 180) / 5 \<le> of_int k" by simp
  then have "fl (fl (s + 180) / 5) \<le> fl (of_int k)" by (rule fl_mono)
  moreover have "fl (of_int k) = of_int k" using assms(2) by (intro fl_of_int) simp
  ultimately show ?thesis unfolding zx_def by (simp add: ceiling_le_iff)
qed

lemma zx_cell_lower:
  assumes "5 * of_int k - 185 + 1 / 1000000000 \<le> s" "- 1024 \<le> s" "s \<le> 1024"
  shows "k \<le> zx s"
proof -
  define A where "A = fl (fl (s + 180) / 5)"
  have "\<bar>A - (s / 5 + 36)\<bar> \<le> 2 / 1000000000000" unfolding A_def using assms(2,3) by (rule zx_error)
  then have "of_int k - 1 < A" using assms(1) by linarith
  then have "of_int (k - 1) < A" by simp
  then have "k - 1 < \<lceil>A\<rceil>" by (simp only: less_ceiling_iff)
  then show ?thesis unfolding zx_def A_def by simp
qed

lemma zy_cell_upper:
  assumes "60 - 5 * of_int j \<le> s" "\<bar>j\<bar> < 1000"
  shows "zy s \<le> j"
proof -
  have "of_int (- 5 * j) \<le> s - 60" using assms(1) by simp
  then have "fl (of_int (- 5 * j)) \<le> fl (s - 60)" by (rule fl_mono)
  moreover have "fl (of_int (- 5 * j)) = of_int (- 5 * j)" using assms(2) by (intro fl_of_int) simp
  ultimately have "fl (s - 60) / - 5 \<le> of_int j" by simp
  then have "fl (fl (s - 60) / - 5) \<le> fl (of_int j)" by (rule fl_mono)
  moreover have "fl (of_int j) = of_int j" using assms(2) by (intro fl_of_int) simp
  ultimately show ?thesis unfolding zy_def by (simp add: ceiling_le_iff)
qed

lemma zy_cell_lower:
  assumes "s \<le> 65 - 5 * of_int j - 1 / 1000000000" "- 1024 \<le> s" "s \<le> 1024"
  shows "j \<le> zy s"
proof -
  define A where "A = fl (fl (s - 60) / - 5)"
  have "\<bar>A - (12 - s / 5)\<bar> \<le> 2 / 1000000000000" unfolding A_def using assms(2,3) by (rule zy_error)
  then have "of_int j - 1 < A" using assms(1) by linarith
  then have "of_int (j - 1) < A" by simp
  then have "j - 1 < \<lceil>A\<rceil>" by (simp only: less_ceiling_iff)
  then show ?thesis unfolding zy_def A_def by simp
qed

text \<open>
  Claim C4, as the code has it. An extent of doubles that lies inside one cell of the
  degree grid and keeps a billionth of a degree away from the cell's western and
  northern edges gets exactly one zone. The cell of column \<open>k\<close> and row \<open>j\<close> is the
  half-open box that the ceilings of \<open>srtm_zone\<close> define: \<open>5 k - 185 < lon \<le> 5 k - 180\<close> and
  \<open>60 - 5 j \<le> lat < 65 - 5 j\<close>. For such an extent, with longitudes from \<open>-180\<close> on, the
  function returns the list of the single name \<open>kk_jj\<close>, both numbers padded with zeros
  to two digits. The eastern and southern edges themselves belong to the cell.
\<close>

theorem srtm_zone_single_cell:
  fixes k j :: nat
  assumes "is_double (np_min lon_ran)" "is_double (np_max lon_ran)"
      and "is_double (np_min lat_ran)" "is_double (np_max lat_ran)"
      and "-180 \<le> np_min lon_ran"
      and "5 * of_nat k - 185 + 1 / 1000000000 \<le> np_min lon_ran"
          "np_max lon_ran \<le> 5 * of_nat k - 180"
      and "60 - 5 * of_nat j \<le> np_min lat_ran"
          "np_max lat_ran \<le> 65 - 5 * of_nat j - 1 / 1000000000"
      and "k < 100" "1 \<le> j" "j < 100"
  shows "srtm_zone lon_ran lat_ran =
           Inr [[digit_char (k div 10), digit_char (k mod 10), CHR ''_'',
                 digit_char (j div 10), digit_char (j mod 10)]]"
proof -
  have mm: "np_min lon_ran \<le> np_max lon_ran" "np_min lat_ran \<le> np_max lat_ran"
    using span_nonneg [of lon_ran] span_nonneg [of lat_ran] by simp_all
  have kr: "(of_nat k :: rat) \<le> 99" "(1::rat) \<le> of_nat j" "(of_nat j :: rat) \<le> 99"
    using assms(10-12) by simp_all
  have b: "np_max lon_ran \<le> 1024" "- 1024 \<le> np_min lon_ran"
          "- 1024 \<le> np_min lat_ran" "np_max lat_ran < 60" "np_max lat_ran \<le> 1024"
    using assms(5,7,8,9) kr by linarith+
  have ki: "\<bar>int k\<bar> < 1000" "\<bar>int j\<bar> < 1000" using assms(10,12) by simp_all
  have "int k \<le> zx (np_min lon_ran)"
    using assms(6) b(1,2) mm(1) by (intro zx_cell_lower) simp_all
  moreover have "zx (np_max lon_ran) \<le> int k"
    using assms(7) ki(1) by (intro zx_cell_upper) simp_all
  moreover have "zx (np_min lon_ran) \<le> zx (np_max lon_ran)" using mm(1) by (rule zx_mono)
  ultimately have x: "zx (np_min lon_ran) = int k" "zx (np_max lon_ran) = int k" by simp_all
  have "int j \<le> zy (np_max lat_ran)"
    using assms(9) b(3,5) mm(2) by (intro zy_cell_lower) simp_all
  moreover have "zy (np_min lat_ran) \<le> int j"
    using assms(8) ki(2) by (intro zy_cell_upper) simp_all
  moreover have "zy (np_max lat_ran) \<le> zy (np_min lat_ran)" using mm(2) by (rule zy_antimono)
  ultimately have y: "zy (np_min lat_ran) = int j" "zy (np_max lat_ran) = int j" by simp_all
  have "srtm_zone lon_ran lat_ran = Inr [zone_str (int k, int j)]"
    unfolding srtm_zone_set [OF assms(1-5) b(1,3,4)] x y by simp
  then show ?thesis
    using assms(10,12) by (simp add: zone_str_def fmt_0f_two_digits)
qed

text \<open>The extent \<open>lon = [11, 12]\<close>, \<open>lat = [46, 47]\<close> lies in the cell of column 39 and row 3.\<close>

theorem srtm_zone_single_cell_witness:
  "srtm_zone (11, 12) (46, 47) = Inr [''39_03'']"
proof -
  have "srtm_zone (11, 12) (46, 47) =
           Inr [[digit_char (39 div 10), digit_char (39 mod 10), CHR ''_'',
                 digit_char (3 div 10), digit_char (3 mod 10)]]"
    by (rule srtm_zone_single_cell [where k = 39 and j = 3]) (simp_all add: np_min_def np_max_def)
  moreover have "[digit_char (39 div 10), digit_char (39 mod 10), CHR ''_'',
                 digit_char (3 div 10), digit_char (3 mod 10)] = ''39_03''"
    by code_simp
  ultimately show ?thesis by simp
qed

text \<open>Columns, rows and sorted lists of names for the examples.\<close>

lemma zx_values:
  "zx 1 = 37" "zx 4 = 37" "zx 8 = 38" "zx 9 = 38" "zx 12 = 39" "zx (10 + 1 / 2 ^ 49) = 38"
  by code_simp+

lemma zy_values:
  "zy 1 = 12" "zy 2 = 12" "zy 12 = 10" "zy 46 = 3" "zy 47 = 3"
  by code_simp+

lemma is_double_near_10: "is_double (10 + 1 / 2 ^ 49)"
  by code_simp

lemma zone_lists:
  "sort (remdups (map zone_str (List.product [38..39] [3..3]))) = [''38_03'', ''39_03'']"
  "sort (remdups (map zone_str (List.product [37..37] [10..12]))) = [''37_10'', ''37_11'', ''37_12'']"
  "sort (remdups (map zone_str (List.product [37..38] [12..12]))) = [''37_12'', ''38_12'']"
  "sort (remdups (map zone_str (List.product [37..38] [10..12]))) =
     [''37_10'', ''37_11'', ''37_12'', ''38_10'', ''38_11'', ''38_12'']"
  by code_simp+

lemma srtm_zone_9_12: "srtm_zone (9, 12) (46, 47) = Inr [''38_03'', ''39_03'']"
proof -
  have "srtm_zone (9, 12) (46, 47) =
      Inr (sort (remdups (map zone_str
              (List.product [zx (np_min (9, 12))..zx (np_max (9, 12))]
                            [zy (np_max (46, 47))..zy (np_min (46, 47))]))))"
    by (rule srtm_zone_set) (simp_all add: np_min_def np_max_def)
  moreover have "np_min (9, 12) = 9" "np_max (9, 12) = 12" "np_min (46, 47) = 46" "np_max (46, 47) = 47"
    by (simp_all add: np_min_def np_max_def)
  ultimately show ?thesis by (simp only: zx_values zy_values zone_lists)
qed

text \<open>
  Against claim C4 as stated: the double next above 10 is strictly inside the cell of
  column 39, but \<open>lon + 180\<close> is rounded to 190, the cell's western edge, which belongs
  to column 38. The extent \<open>lon = [10 + 2^-49, 12]\<close>, \<open>lat = [46, 47]\<close> lies entirely inside
  the cell of column 39 and row 3 and gets two zones.
\<close>

theorem srtm_zone_cell_edge_counterexample:
  "5 * 39 - 185 < np_min (10 + 1 / 2 ^ 49, 12) \<and> np_max (10 + 1 / 2 ^ 49, 12) \<le> 5 * 39 - 180 \<and>
   60 - 5 * 3 \<le> np_min (46, 47) \<and> np_max (46, 47) < 65 - 5 * 3 \<and>
   is_double (10 + 1 / 2 ^ 49) \<and>
   srtm_zone (10 + 1 / 2 ^ 49, 12) (46, 47) = Inr [''38_03'', ''39_03'']"
proof -
  have m: "np_min (10 + 1 / 2 ^ 49, 12) = 10 + 1 / 2 ^ 49" "np_max (10 + 1 / 2 ^ 49, 12) = 12"
          "np_min (46, 47) = 46" "np_max (46, 47) = 47"
    by (simp_all add: np_min_def np_max_def)
  have "srtm_zone (10 + 1 / 2 ^ 49, 12) (46, 47) =
      Inr (sort (remdups (map zone_str
              (List.product [zx (np_min (10 + 1 / 2 ^ 49, 12))..zx (np_max (10 + 1 / 2 ^ 49, 12))]
                            [zy (np_max (46, 47))..zy (np_min (46, 47))]))))"
    by (rule srtm_zone_set) (simp_all only: m is_double_near_10, simp_all)
  then have "srtm_zone (10 + 1 / 2 ^ 49, 12) (46, 47) = Inr [''38_03'', ''39_03'']"
    unfolding m zx_values zy_values zone_lists .
  moreover have "5 * 39 - 185 < np_min (10 + 1 / 2 ^ 49, 12)" unfolding m by simp
  moreover have "np_max (10 + 1 / 2 ^ 49, 12) \<le> 5 * 39 - 180" unfolding m by simp
  moreover have "60 - 5 * 3 \<le> np_min (46, 47)" "np_max (46, 47) < 65 - 5 * 3" unfolding m by simp_all
  ultimately show ?thesis using is_double_near_10 by blast
qed

lemma int_ivl_union: "(l::int) \<le> m \<Longrightarrow> m \<le> u \<Longrightarrow> {l..m} \<union> {m..u} = {l..u}"
  by auto

text \<open>
  The zones of an extent given by its corners, and their set: a rectangle of cells.
\<close>

lemma srtm_zone_ints:
  assumes "is_double a" "is_double e" "is_double c" "is_double f"
      and "-180 \<le> a" "a \<le> e" "e \<le> 180" "-90 \<le> c" "c \<le> f" "f < 60"
  shows "srtm_zone (a, e) (c, f) =
           Inr (sort (remdups (map zone_str (List.product [zx a..zx e] [zy f..zy c]))))"
proof -
  have m: "np_min (a, e) = a" "np_max (a, e) = e" "np_min (c, f) = c" "np_max (c, f) = f"
    using assms(6,9) by (simp_all add: np_min_def np_max_def)
  have "srtm_zone (a, e) (c, f) =
      Inr (sort (remdups (map zone_str
              (List.product [zx (np_min (a, e))..zx (np_max (a, e))]
                            [zy (np_max (c, f))..zy (np_min (c, f))]))))"
  proof (rule srtm_zone_set)
    show "is_double (np_min (a, e))" unfolding m by (rule assms(1))
    show "is_double (np_max (a, e))" unfolding m by (rule assms(2))
    show "is_double (np_min (c, f))" unfolding m by (rule assms(3))
    show "is_double (np_max (c, f))" unfolding m by (rule assms(4))
    show "- 180 \<le> np_min (a, e)" unfolding m by (rule assms(5))
    show "np_max (a, e) \<le> 1024" unfolding m using assms(7) by linarith
    show "- 1024 \<le> np_min (c, f)" unfolding m using assms(8) by linarith
    show "np_max (c, f) < 60" unfolding m by (rule assms(10))
  qed
  then show ?thesis unfolding m .
qed

lemma srtm_zone_box:
  assumes "is_double a" "is_double e" "is_double c" "is_double f"
      and "-180 \<le> a" "a \<le> e" "e \<le> 180" "-90 \<le> c" "c \<le> f" "f < 60"
  shows "\<exists>z. srtm_zone (a, e) (c, f) = Inr z \<and> set z = zone_str ` ({zx a..zx e} \<times> {zy f..zy c})"
  unfolding srtm_zone_ints [OF assms] by simp

lemma srtm_zone_split:
  assumes "is_double a" "is_double b" "is_double e" "is_double c" "is_double d" "is_double f"
      and "-180 \<le> a" "a \<le> b" "b \<le> e" "e \<le> 180" "-90 \<le> c" "c \<le> d" "d \<le> f" "f < 60"
  shows "\<exists>z1 z2 z. srtm_zone (a, b) (c, f) = Inr z1 \<and> srtm_zone (b, e) (c, f) = Inr z2 \<and>
           srtm_zone (a, e) (c, f) = Inr z \<and> set z1 \<union> set z2 = set z"
    and "\<exists>z1 z2 z. srtm_zone (a, e) (c, d) = Inr z1 \<and> srtm_zone (a, e) (d, f) = Inr z2 \<and>
           srtm_zone (a, e) (c, f) = Inr z \<and> set z1 \<union> set z2 = set z"
proof -
  have o: "a \<le> e" "c \<le> f" "b \<le> 180" "-180 \<le> b" "d < 60" "-90 \<le> d"
    using assms(7-14) by linarith+
  obtain z where z: "srtm_zone (a, e) (c, f) = Inr z"
      "set z = zone_str ` ({zx a..zx e} \<times> {zy f..zy c})"
    using srtm_zone_box [OF assms(1,3,4,6) assms(7) o(1) assms(10,11) o(2) assms(14)] by blast
  obtain z1 where z1: "srtm_zone (a, b) (c, f) = Inr z1"
      "set z1 = zone_str ` ({zx a..zx b} \<times> {zy f..zy c})"
    using srtm_zone_box [OF assms(1,2,4,6) assms(7,8) o(3) assms(11) o(2) assms(14)] by blast
  obtain z2 where z2: "srtm_zone (b, e) (c, f) = Inr z2"
      "set z2 = zone_str ` ({zx b..zx e} \<times> {zy f..zy c})"
    using srtm_zone_box [OF assms(2,3,4,6) o(4) assms(9,10,11) o(2) assms(14)] by blast
  have "{zx a..zx b} \<union> {zx b..zx e} = {zx a..zx e}"
    using zx_mono [OF assms(8)] zx_mono [OF assms(9)] by (rule int_ivl_union)
  then have "set z1 \<union> set z2 = set z"
    unfolding z1 z2 z by (simp only: image_Un [symmetric] Sigma_Un_distrib1 [symmetric])
  then show "\<exists>z1 z2 z. srtm_zone (a, b) (c, f) = Inr z1 \<and> srtm_zone (b, e) (c, f) = Inr z2 \<and>
           srtm_zone (a, e) (c, f) = Inr z \<and> set z1 \<union> set z2 = set z"
    using z1(1) z2(1) z(1) by blast
  obtain y1 where y1: "srtm_zone (a, e) (c, d) = Inr y1"
      "set y1 = zone_str ` ({zx a..zx e} \<times> {zy d..zy c})"
    using srtm_zone_box [OF assms(1,3,4,5) assms(7) o(1) assms(10,11,12) o(5)] by blast
  obtain y2 where y2: "srtm_zone (a, e) (d, f) = Inr y2"
      "set y2 = zone_str ` ({zx a..zx e} \<times> {zy f..zy d})"
    using srtm_zone_box [OF assms(1,3,5,6) assms(7) o(1) assms(10) o(6) assms(13,14)] by blast
  have "{zy f..zy d} \<union> {zy d..zy c} = {zy f..zy c}"
    using zy_antimono [OF assms(13)] zy_antimono [OF assms(12)] by (rule int_ivl_union)
  then have "set y2 \<union> set y1 = set z"
    unfolding y1 y2 z by (simp only: image_Un [symmetric] Sigma_Un_distrib2 [symmetric])
  then have "set y1 \<union> set y2 = set z" by (simp add: Un_commute)
  then show "\<exists>z1 z2 z. srtm_zone (a, e) (c, d) = Inr z1 \<and> srtm_zone (a, e) (d, f) = Inr z2 \<and>
           srtm_zone (a, e) (c, f) = Inr z \<and> set z1 \<union> set z2 = set z"
    using y1(1) y2(1) z(1) by blast
qed

text \<open>
  Claim C7, as the code has it. Coverage monotonicity of \<open>srtm_zone\<close> holds for the two
  parts of an extent \<open>[a, e] \<times> [c, f]\<close> cut along a meridian \<open>b\<close> or along a parallel \<open>d\<close>:
  for coordinates that are doubles, longitudes within \<open>[-180, 180]\<close> and latitudes within
  \<open>[-90, 60)\<close>, the zones of the two parts together are the zones of the whole extent.
\<close>

theorem srtm_zone_coverage_union:
  assumes "is_double a" "is_double b" "is_double e" "is_double c" "is_double d" "is_double f"
      and "-180 \<le> a" "a \<le> b" "b \<le> e" "e \<le> 180" "-90 \<le> c" "c \<le> d" "d \<le> f" "f < 60"
  shows "(\<exists>z1 z2 z. srtm_zone (a, b) (c, f) = Inr z1 \<and> srtm_zone (b, e) (c, f) = Inr z2 \<and>
            srtm_zone (a, e) (c, f) = Inr z \<and> set z1 \<union> set z2 = set z) \<and>
         (\<exists>z1 z2 z. srtm_zone (a, e) (c, d) = Inr z1 \<and> srtm_zone (a, e) (d, f) = Inr z2 \<and>
            srtm_zone (a, e) (c, f) = Inr z \<and> set z1 \<union> set z2 = set z)"
  using srtm_zone_split [OF assms] by (rule conjI)

theorem srtm_zone_coverage_union_witness:
  "(\<exists>z1 z2 z. srtm_zone (9, 11) (44, 52) = Inr z1 \<and> srtm_zone (11, 17) (44, 52) = Inr z2 \<and>
      srtm_zone (9, 17) (44, 52) = Inr z \<and> set z1 \<union> set z2 = set z) \<and>
   (\<exists>z1 z2 z. srtm_zone (9, 17) (44, 46) = Inr z1 \<and> srtm_zone (9, 17) (46, 52) = Inr z2 \<and>
      srtm_zone (9, 17) (44, 52) = Inr z \<and> set z1 \<union> set z2 = set z)"
  by (rule srtm_zone_coverage_union) simp_all

text \<open>
  Against claim C7 as stated: two adjacent extents that do not overlap need not share a
  whole edge. \<open>[1, 4] \<times> [1, 12]\<close> and \<open>[4, 8] \<times> [1, 2]\<close> touch along the meridian 4; their
  bounding extent \<open>[1, 8] \<times> [1, 12]\<close> has six zones, of which the two extents reach four.
\<close>

theorem srtm_zone_corner_counterexample:
  "srtm_zone (1, 4) (1, 12) = Inr [''37_10'', ''37_11'', ''37_12''] \<and>
   srtm_zone (4, 8) (1, 2) = Inr [''37_12'', ''38_12''] \<and>
   srtm_zone (1, 8) (1, 12) =
     Inr [''37_10'', ''37_11'', ''37_12'', ''38_10'', ''38_11'', ''38_12''] \<and>
   set [''37_10'', ''37_11'', ''37_12''] \<union> set [''37_12'', ''38_12''] \<noteq>
     set [''37_10'', ''37_11'', ''37_12'', ''38_10'', ''38_11'', ''38_12'']"
proof -
  have "srtm_zone (1, 4) (1, 12) =
      Inr (sort (remdups (map zone_str (List.product [zx 1..zx 4] [zy 12..zy 1]))))"
    by (rule srtm_zone_ints) simp_all
  then have 1: "srtm_zone (1, 4) (1, 12) = Inr [''37_10'', ''37_11'', ''37_12'']"
    by (simp only: zx_values zy_values zone_lists)
  have "srtm_zone (4, 8) (1, 2) =
      Inr (sort (remdups (map zone_str (List.product [zx 4..zx 8] [zy 2..zy 1]))))"
    by (rule srtm_zone_ints) simp_all
  then have 2: "srtm_zone (4, 8) (1, 2) = Inr [''37_12'', ''38_12'']"
    by (simp only: zx_values zy_values zone_lists)
  have "srtm_zone (1, 8) (1, 12) =
      Inr (sort (remdups (map zone_str (List.product [zx 1..zx 8] [zy 12..zy 1]))))"
    by (rule srtm_zone_ints) simp_all
  then have 3: "srtm_zone (1, 8) (1, 12) =
     Inr [''37_10'', ''37_11'', ''37_12'', ''38_10'', ''38_11'', ''38_12'']"
    by (simp only: zx_values zy_values zone_lists)
  have "''38_10'' \<notin> set [''37_10'', ''37_11'', ''37_12''] \<union> set [''37_12'', ''38_12'']" by simp
  moreover have "''38_10'' \<in> set [''37_10'', ''37_11'', ''37_12'', ''38_10'', ''38_11'', ''38_12'']"
    by simp
  ultimately have 4: "set [''37_10'', ''37_11'', ''37_12''] \<union> set [''37_12'', ''38_12''] \<noteq>
     set [''37_10'', ''37_11'', ''37_12'', ''38_10'', ''38_11'', ''38_12'']" by metis
  show ?thesis using 1 2 3 4 by (intro conjI)
qed


subsection \<open>Source selection in \<open>get_topo_file\<close>\<close>


lemma trace_write_file [simp]: "trace (write_file p c w) = trace w"
  by (simp add: write_file_def)

lemma trace_log_event [simp]: "trace (log_event e w) = e # trace w"
  by (simp add: log_event_def)


















text \<open>
  Claim C9. \<open>srtm_zone\<close> fails with \<open>AssertionError\<close> whenever a sampled latitude is 60 or
  more; and an extent whose maximum latitude is exactly 60 (minimum not below \<open>-60\<close>, no
  source, no region hint, no user DEM file) is still sent to \<open>srtm_zone\<close> by
  \<open>get_topo_file\<close>, whose call therefore ends in that \<open>AssertionError\<close>.
\<close>

theorem srtm_zone_assertion:
  "((\<exists>lat\<in>set (densify lat_ran). 60 \<le> lat) \<longrightarrow> srtm_zone lon_ran lat_ran = Inl AssertionError) \<and>
   (np_max lat_ex = 60 \<and> - 60 \<le> np_min lat_ex \<and> \<not> user_dem_configured env w \<and>
      PATHS env ''topo_dir'' = Some topodir \<longrightarrow>
    fst (get_topo_file env lon_ex lat_ex None SrcNone w) = Inl AssertionError)"
proof (intro conjI impI)
  assume "\<exists>lat\<in>set (densify lat_ran). 60 \<le> lat"
  then obtain lat where "lat \<in> set (densify lat_ran)" "60 \<le> lat" by blast
  then have "\<not> (\<forall>lat\<in>set (densify lat_ran). lat < 60)" by force
  then show "srtm_zone lon_ran lat_ran = Inl AssertionError"
    unfolding srtm_zone_cases by (rule if_not_P)
next
  assume a: "np_max lat_ex = 60 \<and> - 60 \<le> np_min lat_ex \<and> \<not> user_dem_configured env w \<and>
      PATHS env ''topo_dir'' = Some topodir"
  have "np_max lat_ex \<in> set (densify lat_ex)" by (rule np_max_in_densify)
  then have "\<not> (\<forall>lat\<in>set (densify lat_ex). lat < 60)" using a by force
  then have "srtm_zone lon_ex lat_ex = Inl AssertionError"
    unfolding srtm_zone_cases by (rule if_not_P)
  then show "fst (get_topo_file env lon_ex lat_ex None SrcNone w) = Inl AssertionError"
    using a
    by (auto simp: get_topo_file_def get_topo_file_body_def user_dem_configured_def
                   topo_tiles_def default_to_def Let_def split: option.splits)
qed

theorem srtm_zone_assertion_witness:
  "srtm_zone (11, 12) (46, 60) = Inl AssertionError \<and>
   fst (get_topo_file example_env (11, 12) (46, 60) None SrcNone (constant_world [] (HTTPErr 404)))
     = Inl AssertionError"
proof -
  have "np_max (46, 60) \<in> set (densify (46, 60))" by (rule np_max_in_densify)
  then have e: "\<exists>lat\<in>set (densify (46, 60)). 60 \<le> lat" by (auto simp: np_max_def)
  have p: "PATHS example_env ''topo_dir'' = Some ''/topo''" by (simp add: example_env_def)
  have u: "\<not> user_dem_configured example_env (constant_world [] (HTTPErr 404))"
    by (simp add: user_dem_configured_def example_env_def)
  show ?thesis
    using srtm_zone_assertion [of "(46, 60)" "(11, 12)" "(46, 60)" example_env
            "constant_world [] (HTTPErr 404)" "''/topo''" "(11, 12)"] e p u
    by (simp add: np_min_def np_max_def)
qed

text \<open>
  Claim C10. \<open>get_topo_file\<close> can fail with \<open>UnboundLocalError\<close> on \<open>sources\<close>: when the
  loop over a list of sources ends without returning, and when the source \<open>SRTM\<close> is
  asked for an extent that leaves \<open>\<plusminus>60\<close> degrees of latitude. The witness has the empty
  list for the first case.
\<close>

theorem get_topo_file_unbound_sources:
  "(try_sources env lon_ex lat_ex rgi_region ss w = (Inr None, w1) \<and>
      PATHS env ''topo_dir'' = Some topodir \<longrightarrow>
    get_topo_file env lon_ex lat_ex rgi_region (SrcList ss) w = (Inl UnboundLocalError, w1)) \<and>
   ((np_min lat_ex < - 60 \<or> 60 < np_max lat_ex) \<and> PATHS env ''topo_dir'' = Some topodir \<longrightarrow>
    get_topo_file env lon_ex lat_ex rgi_region (SrcStr ''SRTM'') w = (Inl UnboundLocalError, w))"
  by (auto simp: get_topo_file_def get_topo_file_body_def topo_tiles_def default_to_def Let_def
           split: option.splits)

theorem get_topo_file_unbound_sources_witness:
  "fst (get_topo_file example_env (11, 12) (46, 47) None (SrcList []) (constant_world [] (HTTPErr 404)))
     = Inl UnboundLocalError \<and>
   fst (get_topo_file example_env (11, 12) (61, 62) None (SrcStr ''SRTM'') (constant_world [] (HTTPErr 404)))
     = Inl UnboundLocalError"
proof -
  have p: "PATHS example_env ''topo_dir'' = Some ''/topo''" by (simp add: example_env_def)
  have l: "try_sources example_env (11, 12) (46, 47) None [] (constant_world [] (HTTPErr 404))
             = (Inr None, constant_world [] (HTTPErr 404))" by simp
  show ?thesis
    using get_topo_file_unbound_sources [of example_env "(11, 12)" "(46, 47)" None "[]"
            "constant_world [] (HTTPErr 404)" "constant_world [] (HTTPErr 404)" "''/topo''"]
          get_topo_file_unbound_sources [of example_env "(11, 12)" "(61, 62)" None "[]"
            "constant_world [] (HTTPErr 404)" "constant_world [] (HTTPErr 404)" "''/topo''"]
          p l
    by (simp add: np_min_def np_max_def)
qed


subsection \<open>Downloading a tile\<close>

lemma log_event_fields [simp]:
  "files (log_event e w) = files w" "server (log_event e w) = server w"
  by (simp_all add: log_event_def)

lemma write_file_fields [simp]:
  "server (write_file p c w) = server w"
  "files (write_file p c w) = (p, c) # filter (\<lambda>e. fst e \<noteq> p) (files w)"
  by (simp_all add: write_file_def)

lemma remove_file_fields [simp]:
  "server (remove_file p w) = server w" "trace (remove_file p w) = trace w"
  "files (remove_file p w) = filter (\<lambda>e. fst e \<noteq> p) (files w)"
  by (simp_all add: remove_file_def)

lemma path_exists_log_event [simp]: "path_exists (log_event e w) p = path_exists w p"
  by (simp add: path_exists_def)

lemma path_exists_write_file [simp]: "path_exists (write_file p c w) q \<longleftrightarrow> q = p \<or> path_exists w q"
  by (auto simp: path_exists_def)

lemma path_exists_remove_file [simp]: "path_exists (remove_file p w) q \<longleftrightarrow> q \<noteq> p \<and> path_exists w q"
  by (auto simp: path_exists_def)

lemma n_fetch_simps [simp]:
  "n_fetch (log_event (Fetch u) w) = Suc (n_fetch w)"
  "n_fetch (log_event (Sleep n) w) = n_fetch w"
  "n_fetch (write_file p c w) = n_fetch w"
  "n_fetch (remove_file p w) = n_fetch w"
  by (simp_all add: n_fetch_def)

lemma sleep_fields [simp]:
  "files (sleep n w) = files w" "server (sleep n w) = server w"
  "trace (sleep n w) = Sleep n # trace w" "n_fetch (sleep n w) = n_fetch w"
  "path_exists (sleep n w) p = path_exists w p"
  by (simp_all add: sleep_def)

lemma progress_urlretrieve_http:
  assumes "server w url (n_fetch w) = HTTPErr c" "\<not> path_exists w ofile"
  shows "progress_urlretrieve url ofile w = (Inl (HTTPError c), log_event (Fetch url) w)"
  using assms by (simp add: progress_urlretrieve_def urlretrieve_def lib_urlretrieve_def)

lemma progress_urlretrieve_ok:
  assumes "server w url (n_fetch w) = Ok c"
  shows "progress_urlretrieve url ofile w = (Inr (), write_file ofile c (log_event (Fetch url) w))"
  using assms by (simp add: progress_urlretrieve_def urlretrieve_def lib_urlretrieve_def)

lemma extractall_raw:
  "extractall ofile outdir (write_file ofile Raw w) = (Inl BadZipfile, write_file ofile Raw w)"
  by (simp add: extractall_def)

lemma srtm_loop_corrupt:
  assumes "server w ifile (n_fetch w) = Ok Raw"
  shows "srtm_loop ifile ofile outdir retry_max k w =
           (Inr ReturnNone, write_file ofile Raw (log_event (Fetch ifile) w))"
  by (subst srtm_loop.simps) (simp add: progress_urlretrieve_ok [OF assms] extractall_raw)

lemma dem3_loop_corrupt:
  assumes "server w ifile (n_fetch w) = Ok Raw"
  shows "dem3_loop ifile ofile outdir k w =
           (Inr ReturnNone, write_file ofile Raw (log_event (Fetch ifile) w))"
  by (subst dem3_loop.simps) (simp add: progress_urlretrieve_ok [OF assms] extractall_raw)

text \<open>
  Claim C8, as the code has it. In tile acquisition a corrupt archive triggers no second
  fetch: when the fetched file is no zip archive, \<open>download_srtm_file\<close> and
  \<open>download_dem3_viewpano\<close> return \<open>None\<close>, the value of an ocean tile, after that single
  fetch. Only the archive step of the sample-data download fetches a second time, and
  a second corrupt archive there propagates \<open>BadZipfile\<close>.
\<close>

theorem corrupt_archive_without_refetch:
  assumes "\<forall>url. server w url (n_fetch w) = Ok Raw"
  shows "(\<not> path_exists w (path_join outdir (''srtm_'' @ zone @ ''.zip'')) \<longrightarrow>
            fst (download_srtm_file zone outdir w) = Inr None \<and>
            n_fetch (snd (download_srtm_file zone outdir w)) = n_fetch w + 1) \<and>
         (\<not> path_exists w (path_join outdir (zone @ ''.tif'')) \<and>
          \<not> path_exists w (path_join outdir (''dem3_'' @ zone @ ''.zip'')) \<longrightarrow>
            fst (download_dem3_viewpano zone outdir w) = Inr None \<and>
            n_fetch (snd (download_dem3_viewpano zone outdir w)) = n_fetch w + 1) \<and>
         (\<not> path_exists w ofile \<and> (\<forall>url. server w url (n_fetch w + 1) = Ok Raw) \<longrightarrow>
            fst (gh_download_if_necessary master_zip_url ofile odir w) = Inl BadZipfile \<and>
            n_fetch (snd (gh_download_if_necessary master_zip_url ofile odir w)) = n_fetch w + 2)"
proof (intro conjI impI)
  assume "\<not> path_exists w (path_join outdir (''srtm_'' @ zone @ ''.zip''))"
  then show "fst (download_srtm_file zone outdir w) = Inr None"
    and "n_fetch (snd (download_srtm_file zone outdir w)) = n_fetch w + 1"
    using assms by (simp_all add: download_srtm_file_def download_srtm_file_unlocked_def srtm_loop_corrupt)
next
  assume "\<not> path_exists w (path_join outdir (zone @ ''.tif'')) \<and>
          \<not> path_exists w (path_join outdir (''dem3_'' @ zone @ ''.zip''))"
  then show "fst (download_dem3_viewpano zone outdir w) = Inr None"
    and "n_fetch (snd (download_dem3_viewpano zone outdir w)) = n_fetch w + 1"
    using assms
    by (simp_all add: download_dem3_viewpano_def download_dem3_viewpano_unlocked_def dem3_loop_corrupt Let_def)
next
  assume a: "\<not> path_exists w ofile \<and> (\<forall>url. server w url (n_fetch w + 1) = Ok Raw)"
  have 1: "progress_urlretrieve master_zip_url ofile w
             = (Inr (), write_file ofile Raw (log_event (Fetch master_zip_url) w))"
    using assms by (simp add: progress_urlretrieve_ok)
  have 2: "progress_urlretrieve master_zip_url ofile
             (remove_file ofile (write_file ofile Raw (log_event (Fetch master_zip_url) w)))
           = (Inr (), write_file ofile Raw (log_event (Fetch master_zip_url)
                (remove_file ofile (write_file ofile Raw (log_event (Fetch master_zip_url) w)))))"
    using a by (intro progress_urlretrieve_ok) simp
  show "fst (gh_download_if_necessary master_zip_url ofile odir w) = Inl BadZipfile"
    and "n_fetch (snd (gh_download_if_necessary master_zip_url ofile odir w)) = n_fetch w + 2"
    using a by (simp_all add: gh_download_if_necessary_def 1 extractall_raw 2)
qed

text \<open>
  Against claim C8 as stated: a corrupt SRTM archive is answered with \<open>None\<close> after one
  fetch, where the claim wants one more fetch and then a fatal error, never absence.
\<close>

theorem corrupt_archive_counterexample:
  "fst (download_srtm_file ''39_03'' ''/topo/srtm'' (constant_world [] (Ok Raw))) = Inr None \<and>
   n_fetch (snd (download_srtm_file ''39_03'' ''/topo/srtm'' (constant_world [] (Ok Raw)))) = 1"
  by code_simp


theorem corrupt_archive_without_refetch_witness:
  "fst (download_srtm_file ''38_03'' ''/topo/srtm'' (constant_world [] (Ok Raw))) = Inr None \<and>
   n_fetch (snd (download_srtm_file ''38_03'' ''/topo/srtm'' (constant_world [] (Ok Raw)))) = 1 \<and>
   fst (download_dem3_viewpano ''R01'' ''/topo/dem3'' (constant_world [] (Ok Raw))) = Inr None \<and>
   n_fetch (snd (download_dem3_viewpano ''R01'' ''/topo/dem3'' (constant_world [] (Ok Raw)))) = 1 \<and>
   fst (gh_download_if_necessary ''https://github.com/OGGM/oggm-sample-data/archive/master.zip''
          ''/cache/oggm-sample-data.zip'' ''/cache'' (constant_world [] (Ok Raw))) = Inl BadZipfile \<and>
   n_fetch (snd (gh_download_if_necessary ''https://github.com/OGGM/oggm-sample-data/archive/master.zip''
          ''/cache/oggm-sample-data.zip'' ''/cache'' (constant_world [] (Ok Raw)))) = 2"
proof -
  have s: "\<forall>url. server (constant_world [] (Ok Raw)) url (n_fetch (constant_world [] (Ok Raw))) = Ok Raw"
    by (simp add: constant_world_def)
  have e: "\<not> path_exists (constant_world [] (Ok Raw)) p" for p
    by (simp add: constant_world_def path_exists_def)
  have n: "n_fetch (constant_world [] (Ok Raw)) = 0" by (simp add: constant_world_def n_fetch_def)
  have s1: "\<forall>url. server (constant_world [] (Ok Raw)) url (n_fetch (constant_world [] (Ok Raw)) + 1) = Ok Raw"
    by (simp add: constant_world_def)
  show ?thesis
    using corrupt_archive_without_refetch [OF s, of "''/topo/srtm''" "''38_03''"]
          corrupt_archive_without_refetch [OF s, of "''/topo/dem3''" "''R01''" "''/cache/oggm-sample-data.zip''"
            "''https://github.com/OGGM/oggm-sample-data/archive/master.zip''" "''/cache''"]
          e s1 n
    by simp
qed

lemma concat_replicate_snoc: "concat (replicate m x) @ x = concat (replicate (Suc m) x)"
  by (induction m) simp_all

lemma srtm_loop_5xx:
  assumes "\<forall>url n. \<exists>c. server w url n = HTTPErr c \<and> 500 \<le> c \<and> c < 600"
      and "\<not> path_exists w ofile" and "retry_max - k = m" and "k \<le> retry_max"
  shows "\<exists>c. 500 \<le> c \<and> c < 600 \<and>
           fst (srtm_loop ifile ofile outdir retry_max k w) = Inl (HTTPError c) \<and>
           trace (snd (srtm_loop ifile ofile outdir retry_max k w))
             = Fetch ifile # concat (replicate m [Sleep 10, Fetch ifile]) @ trace w"
  using assms
proof (induction m arbitrary: k w)
  case 0
  obtain c where c: "server w ifile (n_fetch w) = HTTPErr c" "500 \<le> c" "c < 600"
    using "0.prems"(1) by blast
  have "srtm_loop ifile ofile outdir retry_max k w = (Inl (HTTPError c), log_event (Fetch ifile) w)"
    using c "0.prems"
    by (subst srtm_loop.simps) (simp add: progress_urlretrieve_http)
  then show ?case using c by simp
next
  case (Suc m)
  obtain c where c: "server w ifile (n_fetch w) = HTTPErr c" "500 \<le> c" "c < 600"
    using Suc.prems(1) by blast
  let ?w = "sleep 10 (log_event (Fetch ifile) w)"
  have kk: "Suc k \<le> retry_max" using Suc.prems by linarith
  have step: "srtm_loop ifile ofile outdir retry_max k w
                = srtm_loop ifile ofile outdir retry_max (k + 1) ?w"
    using c Suc.prems kk
    by (subst srtm_loop.simps) (simp add: progress_urlretrieve_http)
  have "\<exists>c. 500 \<le> c \<and> c < 600 \<and>
           fst (srtm_loop ifile ofile outdir retry_max (k + 1) ?w) = Inl (HTTPError c) \<and>
           trace (snd (srtm_loop ifile ofile outdir retry_max (k + 1) ?w))
             = Fetch ifile # concat (replicate m [Sleep 10, Fetch ifile]) @ trace ?w"
    using Suc.prems by (intro Suc.IH) simp_all
  then obtain c' where c': "500 \<le> c'" "c' < 600"
      "fst (srtm_loop ifile ofile outdir retry_max (k + 1) ?w) = Inl (HTTPError c')"
      "trace (snd (srtm_loop ifile ofile outdir retry_max (k + 1) ?w))
             = Fetch ifile # concat (replicate m [Sleep 10, Fetch ifile]) @ trace ?w"
    by blast
  have "concat (replicate m [Sleep 10, Fetch ifile]) @ trace ?w
          = (concat (replicate m [Sleep 10, Fetch ifile]) @ [Sleep 10, Fetch ifile]) @ trace w"
    by simp
  also have "\<dots> = concat (replicate (Suc m) [Sleep 10, Fetch ifile]) @ trace w"
    by (simp only: concat_replicate_snoc)
  finally have "trace (snd (srtm_loop ifile ofile outdir retry_max (k + 1) ?w))
             = Fetch ifile # concat (replicate (Suc m) [Sleep 10, Fetch ifile]) @ trace w"
    using c'(4) by (simp only:)
  then show ?case unfolding step using c'(1,2,3) by blast
qed

lemma dem3_loop_5xx:
  assumes "\<forall>url n. \<exists>c. server w url n = HTTPErr c \<and> 500 \<le> c \<and> c < 600"
      and "\<not> path_exists w ofile" and "5 - k = m" and "k \<le> 5"
  shows "\<exists>c. 500 \<le> c \<and> c < 600 \<and>
           fst (dem3_loop ifile ofile outdir k w) = Inl (HTTPError c) \<and>
           trace (snd (dem3_loop ifile ofile outdir k w))
             = Fetch ifile # concat (replicate m [Sleep 10, Fetch ifile]) @ trace w"
  using assms
proof (induction m arbitrary: k w)
  case 0
  obtain c where c: "server w ifile (n_fetch w) = HTTPErr c" "500 \<le> c" "c < 600"
    using "0.prems"(1) by blast
  have "dem3_loop ifile ofile outdir k w = (Inl (HTTPError c), log_event (Fetch ifile) w)"
    using c "0.prems"
    by (subst dem3_loop.simps) (simp add: progress_urlretrieve_http)
  then show ?case using c by simp
next
  case (Suc m)
  obtain c where c: "server w ifile (n_fetch w) = HTTPErr c" "500 \<le> c" "c < 600"
    using Suc.prems(1) by blast
  let ?w = "sleep 10 (log_event (Fetch ifile) w)"
  have kk: "k \<le> 4" using Suc.prems by linarith
  have step: "dem3_loop ifile ofile outdir k w = dem3_loop ifile ofile outdir (k + 1) ?w"
    using c Suc.prems kk
    by (subst dem3_loop.simps) (simp add: progress_urlretrieve_http)
  have "\<exists>c. 500 \<le> c \<and> c < 600 \<and>
           fst (dem3_loop ifile ofile outdir (k + 1) ?w) = Inl (HTTPError c) \<and>
           trace (snd (dem3_loop ifile ofile outdir (k + 1) ?w))
             = Fetch ifile # concat (replicate m [Sleep 10, Fetch ifile]) @ trace ?w"
    using Suc.prems by (intro Suc.IH) simp_all
  then obtain c' where c': "500 \<le> c'" "c' < 600"
      "fst (dem3_loop ifile ofile outdir (k + 1) ?w) = Inl (HTTPError c')"
      "trace (snd (dem3_loop ifile ofile outdir (k + 1) ?w))
             = Fetch ifile # concat (replicate m [Sleep 10, Fetch ifile]) @ trace ?w"
    by blast
  have "concat (replicate m [Sleep 10, Fetch ifile]) @ trace ?w
          = (concat (replicate m [Sleep 10, Fetch ifile]) @ [Sleep 10, Fetch ifile]) @ trace w"
    by simp
  also have "\<dots> = concat (replicate (Suc m) [Sleep 10, Fetch ifile]) @ trace w"
    by (simp only: concat_replicate_snoc)
  finally have "trace (snd (dem3_loop ifile ofile outdir (k + 1) ?w))
             = Fetch ifile # concat (replicate (Suc m) [Sleep 10, Fetch ifile]) @ trace w"
    using c'(4) by (simp only:)
  then show ?case unfolding step using c'(1,2,3) by blast
qed


lemma six_attempts:
  "Fetch u # concat (replicate 5 [Sleep 10, Fetch u]) @ tr =
   [Fetch u, Sleep 10, Fetch u, Sleep 10, Fetch u, Sleep 10, Fetch u, Sleep 10, Fetch u, Sleep 10, Fetch u] @ tr"
  by (simp add: numeral_eq_Suc)

text \<open>
  Claim C3, as the code has it. The counter is compared with \<open>retry_counter <= retry_max\<close>
  after it has counted the failed attempt, so five retries follow the first attempt: a
  tile download that meets a 5xx status at every fetch makes six fetches, sleeps ten
  seconds between two fetches, and raises the \<open>HTTPError\<close> of the sixth; it neither goes
  on nor returns \<open>None\<close>.
\<close>

theorem retry_on_server_error:
  assumes "\<forall>url n. \<exists>c. server w url n = HTTPErr c \<and> 500 \<le> c \<and> c < 600"
  shows "(\<not> path_exists w (path_join outdir (''srtm_'' @ zone @ ''.zip'')) \<longrightarrow>
            (\<exists>c. 500 \<le> c \<and> c < 600 \<and> fst (download_srtm_file zone outdir w) = Inl (HTTPError c)) \<and>
            (\<exists>u. trace (snd (download_srtm_file zone outdir w)) =
                   [Fetch u, Sleep 10, Fetch u, Sleep 10, Fetch u, Sleep 10,
                    Fetch u, Sleep 10, Fetch u, Sleep 10, Fetch u] @ trace w)) \<and>
         (\<not> path_exists w (path_join outdir (zone @ ''.tif'')) \<and>
          \<not> path_exists w (path_join outdir (''dem3_'' @ zone @ ''.zip'')) \<longrightarrow>
            (\<exists>c. 500 \<le> c \<and> c < 600 \<and> fst (download_dem3_viewpano zone outdir w) = Inl (HTTPError c)) \<and>
            (\<exists>u. trace (snd (download_dem3_viewpano zone outdir w)) =
                   [Fetch u, Sleep 10, Fetch u, Sleep 10, Fetch u, Sleep 10,
                    Fetch u, Sleep 10, Fetch u, Sleep 10, Fetch u] @ trace w))"
proof (intro conjI impI)
  let ?ofile = "path_join outdir (''srtm_'' @ zone @ ''.zip'')"
  let ?ifile = "''http://droppr.org/srtm/v4.1/6_5x5_TIFs'' @ ''/srtm_'' @ zone @ ''.zip''"
  assume ne: "\<not> path_exists w ?ofile"
  obtain c where c: "500 \<le> c" "c < 600"
      "fst (srtm_loop ?ifile ?ofile outdir 5 0 w) = Inl (HTTPError c)"
      "trace (snd (srtm_loop ?ifile ?ofile outdir 5 0 w))
         = Fetch ?ifile # concat (replicate 5 [Sleep 10, Fetch ?ifile]) @ trace w"
    using srtm_loop_5xx [OF assms ne, of 5 0 5 ?ifile outdir] by auto
  obtain w1 where l: "srtm_loop ?ifile ?ofile outdir 5 0 w = (Inl (HTTPError c), w1)"
    using c(3) by (cases "srtm_loop ?ifile ?ofile outdir 5 0 w") simp
  have d: "download_srtm_file zone outdir w = (Inl (HTTPError c), w1)"
    using ne l by (simp add: download_srtm_file_def download_srtm_file_unlocked_def Let_def)
  show "\<exists>c. 500 \<le> c \<and> c < 600 \<and> fst (download_srtm_file zone outdir w) = Inl (HTTPError c)"
    using c(1,2) d by auto
  have "trace w1 = Fetch ?ifile # concat (replicate 5 [Sleep 10, Fetch ?ifile]) @ trace w"
    using c(4) l by simp
  then show "\<exists>u. trace (snd (download_srtm_file zone outdir w)) =
                   [Fetch u, Sleep 10, Fetch u, Sleep 10, Fetch u, Sleep 10,
                    Fetch u, Sleep 10, Fetch u, Sleep 10, Fetch u] @ trace w"
    unfolding d six_attempts by (intro exI [of _ ?ifile]) simp
next
  let ?ofile = "path_join outdir (''dem3_'' @ zone @ ''.zip'')"
  assume ne: "\<not> path_exists w (path_join outdir (zone @ ''.tif'')) \<and> \<not> path_exists w ?ofile"
  define ifile where "ifile =
                 (if zone \<in> set dem3_v2_zones
                  then ''http://viewfinderpanoramas.org/dem3/'' @ zone @ ''v2.zip''
                  else if zone \<in> set [''01-15'', ''16-30'', ''31-45'', ''46-60'']
                  then ''http://viewfinderpanoramas.org/ANTDEM3/'' @ zone @ ''.zip''
                  else ''http://viewfinderpanoramas.org/dem3/'' @ zone @ ''.zip'')"
  have ne2: "\<not> path_exists w ?ofile" using ne by simp
  obtain c where c: "500 \<le> c" "c < 600"
      "fst (dem3_loop ifile ?ofile outdir 0 w) = Inl (HTTPError c)"
      "trace (snd (dem3_loop ifile ?ofile outdir 0 w))
         = Fetch ifile # concat (replicate 5 [Sleep 10, Fetch ifile]) @ trace w"
    using dem3_loop_5xx [OF assms ne2, of 0 5 ifile outdir] by auto
  obtain w1 where l: "dem3_loop ifile ?ofile outdir 0 w = (Inl (HTTPError c), w1)"
    using c(3) by (cases "dem3_loop ifile ?ofile outdir 0 w") simp
  have d: "download_dem3_viewpano zone outdir w = (Inl (HTTPError c), w1)"
    using ne l unfolding download_dem3_viewpano_def download_dem3_viewpano_unlocked_def Let_def ifile_def [symmetric]
    by simp
  show "\<exists>c. 500 \<le> c \<and> c < 600 \<and> fst (download_dem3_viewpano zone outdir w) = Inl (HTTPError c)"
    using c(1,2) d by auto
  have "trace w1 = Fetch ifile # concat (replicate 5 [Sleep 10, Fetch ifile]) @ trace w"
    using c(4) l by simp
  then show "\<exists>u. trace (snd (download_dem3_viewpano zone outdir w)) =
                   [Fetch u, Sleep 10, Fetch u, Sleep 10, Fetch u, Sleep 10,
                    Fetch u, Sleep 10, Fetch u, Sleep 10, Fetch u] @ trace w"
    unfolding d six_attempts by (intro exI [of _ ifile]) simp
qed

text \<open>
  Against claim C3 as stated (at most 5 attempts): with a server that always answers
  503 the download has made more than five fetches when it gives up.
\<close>

theorem retry_five_attempts_counterexample:
  "\<not> n_fetch (snd (download_srtm_file ''39_03'' ''/topo/srtm'' (constant_world [] (HTTPErr 503)))) \<le> 5"
  by code_simp


theorem retry_on_server_error_witness:
  "(\<exists>c. 500 \<le> c \<and> c < 600 \<and>
        fst (download_srtm_file ''38_03'' ''/topo/srtm'' (constant_world [] (HTTPErr 503))) = Inl (HTTPError c)) \<and>
   (\<exists>u. trace (snd (download_srtm_file ''38_03'' ''/topo/srtm'' (constant_world [] (HTTPErr 503)))) =
          [Fetch u, Sleep 10, Fetch u, Sleep 10, Fetch u, Sleep 10,
           Fetch u, Sleep 10, Fetch u, Sleep 10, Fetch u]) \<and>
   (\<exists>c. 500 \<le> c \<and> c < 600 \<and>
        fst (download_dem3_viewpano ''38_03'' ''/topo/srtm'' (constant_world [] (HTTPErr 503))) = Inl (HTTPError c)) \<and>
   (\<exists>u. trace (snd (download_dem3_viewpano ''38_03'' ''/topo/srtm'' (constant_world [] (HTTPErr 503)))) =
          [Fetch u, Sleep 10, Fetch u, Sleep 10, Fetch u, Sleep 10,
           Fetch u, Sleep 10, Fetch u, Sleep 10, Fetch u])"
proof -
  have s: "\<forall>url n. \<exists>c. server (constant_world [] (HTTPErr 503)) url n = HTTPErr c \<and> 500 \<le> c \<and> c < 600"
    by (simp add: constant_world_def)
  have e: "\<not> path_exists (constant_world [] (HTTPErr 503)) p" for p
    by (simp add: constant_world_def path_exists_def)
  have t: "trace (constant_world [] (HTTPErr 503)) = []" by (simp add: constant_world_def)
  show ?thesis
    using retry_on_server_error [OF s, of "''/topo/srtm''" "''38_03''"] e t by simp
qed

lemma progress_urlretrieve_Inr_exists:
  "progress_urlretrieve url ofile w = (Inr u, w1) \<Longrightarrow> path_exists w1 ofile"
  by (auto simp: progress_urlretrieve_def urlretrieve_def lib_urlretrieve_def Let_def
           split: response.splits if_splits)

lemma path_exists_fold_write:
  "path_exists w p \<Longrightarrow> path_exists (fold (\<lambda>m. write_file (f m) c) ms w) p"
  by (induction ms arbitrary: w) simp_all

lemma extractall_keeps:
  "extractall ofile outdir w = (r, w1) \<Longrightarrow> path_exists w p \<Longrightarrow> path_exists w1 p"
  by (auto simp: extractall_def path_exists_fold_write split: option.splits content.splits)

lemma srtm_loop_Break_exists:
  "srtm_loop ifile ofile outdir retry_max k w = (Inr Break, w1) \<Longrightarrow> path_exists w1 ofile"
proof (induction ifile ofile outdir retry_max k w rule: srtm_loop.induct)
  case (1 ifile ofile outdir retry_max retry_counter w)
  obtain r wa where p: "progress_urlretrieve ifile ofile w = (r, wa)"
    by (cases "progress_urlretrieve ifile ofile w")
  show ?case
  proof (cases r)
    case (Inr u)
    then have ex: "path_exists wa ofile" using p progress_urlretrieve_Inr_exists by blast
    obtain r2 wb where x: "extractall ofile outdir wa = (r2, wb)"
      by (cases "extractall ofile outdir wa")
    have "path_exists wb ofile" using extractall_keeps [OF x ex] .
    moreover have "w1 = wb"
      using "1.prems" p Inr x
      by (subst (asm) srtm_loop.simps) (auto split: sum.splits py_error.splits)
    ultimately show ?thesis by simp
  next
    case (Inl e)
    show ?thesis
    proof (cases e)
      case (HTTPError code)
      have c: "code \<noteq> 404 \<and> (500 \<le> code \<and> code < 600) \<and> retry_counter + 1 \<le> retry_max"
        using "1.prems" p Inl HTTPError
        by (subst (asm) srtm_loop.simps) (auto split: if_splits)
      then have l: "srtm_loop ifile ofile outdir retry_max (retry_counter + 1) (sleep 10 wa) = (Inr Break, w1)"
        using "1.prems" p Inl HTTPError
        by (subst (asm) srtm_loop.simps) simp
      show ?thesis
        using "1.IH" [OF p [symmetric] Inl HTTPError _ _ l] c by blast
    qed (use "1.prems" p Inl in \<open>subst (asm) srtm_loop.simps, simp\<close>)+
  qed
qed


subsection \<open>Idempotence of the tile downloads\<close>

lemma ends_with_iff: "ends_with suf s \<longleftrightarrow> (\<exists>pre. s = pre @ suf)"
proof
  assume "ends_with suf s"
  then have "s = take (length s - length suf) s @ suf"
    unfolding ends_with_def by (metis append_take_drop_id)
  then show "\<exists>pre. s = pre @ suf" ..
next
  assume "\<exists>pre. s = pre @ suf"
  then show "ends_with suf s" unfolding ends_with_def by auto
qed

lemma ends_with_drop: "ends_with suf (drop n s) \<Longrightarrow> ends_with suf s"
  unfolding ends_with_iff by (metis append.assoc append_take_drop_id)

lemma ends_with_path_join: "ends_with suf b \<Longrightarrow> ends_with suf (path_join a b)"
  unfolding ends_with_iff path_join_def by (metis append.assoc append_Nil)

lemma ends_with_same_length:
  "ends_with s1 p \<Longrightarrow> ends_with s2 p \<Longrightarrow> length s1 = length s2 \<Longrightarrow> s1 = s2"
proof -
  assume a: "ends_with s1 p" "ends_with s2 p" "length s1 = length s2"
  have "s1 = drop (length p - length s1) p" using a(1) by (simp add: ends_with_def)
  moreover have "s2 = drop (length p - length s2) p" using a(2) by (simp add: ends_with_def)
  ultimately show ?thesis using a(3) by metis
qed

lemma hgt_is_not_tif:
  assumes "ends_with ''.hgt'' p" shows "\<not> ends_with ''.tif'' p"
  using ends_with_same_length [OF assms, of "''.tif''"] by auto

lemma glob_hgt_ends: "g \<in> set (glob_hgt dir w) \<Longrightarrow> ends_with ''.hgt'' g"
  by (auto simp: glob_hgt_def hgt_name_def Let_def dest: ends_with_drop)

lemma glob_sub_hgt_ends: "g \<in> set (glob_sub_hgt dir w) \<Longrightarrow> ends_with ''.hgt'' g"
  by (auto simp: glob_sub_hgt_def hgt_name_def Let_def dest!: ends_with_drop)

lemma path_exists_fold_remove:
  "path_exists (fold remove_file gl w) q \<longleftrightarrow> q \<notin> set gl \<and> path_exists w q"
  by (induction gl arbitrary: w) auto

lemma dem3_merge_Some:
  assumes "dem3_merge zone outdir outpath w = (Inr (Some p), w')" "ends_with ''.tif'' outpath"
  shows "p = outpath \<and> path_exists w' outpath"
proof -
  define gl where "gl = (if zone \<in> set (map fst DEM3REG) then glob_sub_hgt outdir w
     else glob_hgt (if length zone = 4 \<and> hd zone = CHR ''S''
                     then path_join outdir (tl zone) else path_join outdir zone) w)"
  have "ends_with ''.hgt'' g" if "g \<in> set gl" for g
    using that glob_hgt_ends glob_sub_hgt_ends unfolding gl_def by (auto split: if_splits)
  then have "outpath \<notin> set gl"
    using assms(2) hgt_is_not_tif by blast
  moreover have "p = outpath \<and> w' = fold remove_file gl (write_file outpath Raw w)"
    using assms(1) unfolding dem3_merge_def Let_def gl_def by (auto split: if_splits)
  ultimately show ?thesis by (simp add: path_exists_fold_remove)
qed



lemma finish_idem:
  "(if path_exists w out then (Inr (Some out), w) else (Inl AssertionError, w)) = (Inr (Some p), w')
   \<Longrightarrow> p = out \<and> w' = w \<and> path_exists w out"
  by (auto split: if_splits)

lemma download_srtm_file_idem:
  assumes "download_srtm_file zone outdir w = (Inr (Some p), w')"
  shows "download_srtm_file zone outdir w' = (Inr (Some p), w')"
proof -
  let ?ofile = "path_join outdir (''srtm_'' @ zone @ ''.zip'')"
  let ?ifile = "''http://droppr.org/srtm/v4.1/6_5x5_TIFs'' @ ''/srtm_'' @ zone @ ''.zip''"
  let ?out = "path_join outdir (''srtm_'' @ zone @ ''.tif'')"
  have "path_exists w' ?ofile \<and> path_exists w' ?out \<and> p = ?out"
  proof (cases "path_exists w ?ofile")
    case True
    then show ?thesis
      using assms
      by (auto simp: download_srtm_file_def download_srtm_file_unlocked_def Let_def split: if_splits)
  next
    case False
    obtain r w1 where l: "srtm_loop ?ifile ?ofile outdir 5 0 w = (r, w1)"
      by (cases "srtm_loop ?ifile ?ofile outdir 5 0 w")
    have "r = Inr Break \<and> w' = w1 \<and> path_exists w1 ?out \<and> p = ?out"
      using assms False l
      by (auto simp: download_srtm_file_def download_srtm_file_unlocked_def Let_def
               split: if_splits sum.splits loop_exit.splits)
    then show ?thesis using srtm_loop_Break_exists [of ?ifile ?ofile outdir 5 0 w w1] l by simp
  qed
  then show ?thesis
    by (simp add: download_srtm_file_def download_srtm_file_unlocked_def Let_def)
qed

lemma download_dem3_viewpano_idem:
  assumes "download_dem3_viewpano zone outdir w = (Inr (Some p), w')"
  shows "download_dem3_viewpano zone outdir w' = (Inr (Some p), w')"
proof -
  let ?ofile = "path_join outdir (''dem3_'' @ zone @ ''.zip'')"
  let ?outpath = "path_join outdir (zone @ ''.tif'')"
  have tif: "ends_with ''.tif'' ?outpath"
    by (rule ends_with_path_join) (simp add: ends_with_def)
  have "path_exists w' ?outpath \<and> p = ?outpath"
  proof (cases "path_exists w ?outpath")
    case True
    then show ?thesis
      using assms by (simp add: download_dem3_viewpano_def download_dem3_viewpano_unlocked_def Let_def)
  next
    case False
    then obtain w1 where "dem3_merge zone outdir ?outpath w1 = (Inr (Some p), w')"
      using assms
      by (auto simp: download_dem3_viewpano_def download_dem3_viewpano_unlocked_def Let_def
               split: if_splits prod.splits sum.splits loop_exit.splits)
    then show ?thesis using dem3_merge_Some [OF _ tif] by blast
  qed
  then show ?thesis
    by (simp add: download_dem3_viewpano_def download_dem3_viewpano_unlocked_def Let_def)
qed

text \<open>
  Claim C5. Per-tile acquisition is idempotent. When a call of \<open>download_srtm_file\<close> or of
  \<open>download_dem3_viewpano\<close> has returned a path, the same call in the world it left
  returns the same path and leaves that world as it is: the existence check finds the
  archive (SRTM) or the GeoTIFF (DEM3), and the trace gets no new \<open>Fetch\<close>.
\<close>

theorem tile_download_idempotent:
  "(download_srtm_file zone outdir w = (Inr (Some p), w') \<longrightarrow>
      download_srtm_file zone outdir w' = (Inr (Some p), w')) \<and>
   (download_dem3_viewpano zone outdir w = (Inr (Some p), w') \<longrightarrow>
      download_dem3_viewpano zone outdir w' = (Inr (Some p), w'))"
  using download_srtm_file_idem download_dem3_viewpano_idem by blast

theorem tile_download_idempotent_witness:
  "download_srtm_file ''39_03'' ''/topo/srtm''
     (snd (download_srtm_file ''39_03'' ''/topo/srtm'' (constant_world [] (Ok (Zip [''srtm_39_03.tif''])))))
   = (Inr (Some ''/topo/srtm/srtm_39_03.tif''),
      snd (download_srtm_file ''39_03'' ''/topo/srtm'' (constant_world [] (Ok (Zip [''srtm_39_03.tif''])))))
   \<and>
   download_dem3_viewpano ''R01'' ''/topo/dem3''
     (snd (download_dem3_viewpano ''R01'' ''/topo/dem3'' (constant_world [] (Ok (Zip [''R01/N70W180.hgt''])))))
   = (Inr (Some ''/topo/dem3/R01.tif''),
      snd (download_dem3_viewpano ''R01'' ''/topo/dem3'' (constant_world [] (Ok (Zip [''R01/N70W180.hgt''])))))"
proof -
  let ?w = "constant_world [] (Ok (Zip [''srtm_39_03.tif'']))"
  let ?v = "constant_world [] (Ok (Zip [''R01/N70W180.hgt'']))"
  have "fst (download_srtm_file ''39_03'' ''/topo/srtm'' ?w) = Inr (Some ''/topo/srtm/srtm_39_03.tif'')"
    by code_simp
  then have a: "download_srtm_file ''39_03'' ''/topo/srtm'' ?w =
      (Inr (Some ''/topo/srtm/srtm_39_03.tif''), snd (download_srtm_file ''39_03'' ''/topo/srtm'' ?w))"
    by (metis prod.collapse)
  have "fst (download_dem3_viewpano ''R01'' ''/topo/dem3'' ?v) = Inr (Some ''/topo/dem3/R01.tif'')"
    by code_simp
  then have b: "download_dem3_viewpano ''R01'' ''/topo/dem3'' ?v =
      (Inr (Some ''/topo/dem3/R01.tif''), snd (download_dem3_viewpano ''R01'' ''/topo/dem3'' ?v))"
    by (metis prod.collapse)
  show ?thesis
    using tile_download_idempotent [of "''39_03''" "''/topo/srtm''" ?w "''/topo/srtm/srtm_39_03.tif''"
            "snd (download_srtm_file ''39_03'' ''/topo/srtm'' ?w)"]
          tile_download_idempotent [of "''R01''" "''/topo/dem3''" ?v "''/topo/dem3/R01.tif''"
            "snd (download_dem3_viewpano ''R01'' ''/topo/dem3'' ?v)"]
          a b
    by blast
qed

subsection \<open>Absent tiles and the resolution\<close>

lemma srtm_loop_not_found:
  assumes "server w ifile (n_fetch w) = HTTPErr 404" "\<not> path_exists w ofile"
  shows "srtm_loop ifile ofile outdir retry_max k w = (Inr ReturnNone, log_event (Fetch ifile) w)"
  by (subst srtm_loop.simps) (simp add: progress_urlretrieve_http [OF assms])

lemma dem3_loop_not_found:
  assumes "server w ifile (n_fetch w) = HTTPErr 404" "\<not> path_exists w ofile"
  shows "dem3_loop ifile ofile outdir k w = (Inr ReturnNone, log_event (Fetch ifile) w)"
  by (subst dem3_loop.simps) (simp add: progress_urlretrieve_http [OF assms])

text \<open>
  A tile whose fetch is answered with 404 is absent: both download functions return
  \<open>None\<close>, they do not raise.
\<close>

lemma tile_download_not_found:
  assumes "\<forall>url. server w url (n_fetch w) = HTTPErr 404"
  shows "\<not> path_exists w (path_join outdir (''srtm_'' @ zone @ ''.zip'')) \<Longrightarrow>
           fst (download_srtm_file zone outdir w) = Inr None"
    and "\<not> path_exists w (path_join outdir (zone @ ''.tif'')) \<Longrightarrow>
         \<not> path_exists w (path_join outdir (''dem3_'' @ zone @ ''.zip'')) \<Longrightarrow>
           fst (download_dem3_viewpano zone outdir w) = Inr None"
  using assms
  by (simp_all add: download_srtm_file_def download_srtm_file_unlocked_def srtm_loop_not_found
        download_dem3_viewpano_def download_dem3_viewpano_unlocked_def dem3_loop_not_found Let_def)

lemma linspace_nonempty: "0 < num \<Longrightarrow> linspace a b num \<noteq> []"
  by (simp add: linspace_def)

lemma product_nonempty: "xs \<noteq> [] \<Longrightarrow> ys \<noteq> [] \<Longrightarrow> List.product xs ys \<noteq> []"
  by (cases xs; cases ys) simp_all

lemma sort_remdups_nonempty: "xs \<noteq> [] \<Longrightarrow> sort (remdups xs) \<noteq> []"
proof -
  assume "xs \<noteq> []"
  then have "length (sort (remdups xs)) \<noteq> 0" by simp
  then show ?thesis by fastforce
qed

lemma srtm_zone_nonempty:
  assumes "srtm_zone lon_ran lat_ran = Inr zs"
  shows "zs \<noteq> []"
proof -
  let ?ps = "List.product (densify lon_ran) (densify lat_ran)"
  have "map srtm_name ?ps \<noteq> []"
    using product_nonempty [OF densify_nonempty [of lon_ran] densify_nonempty [of lat_ran]] by simp
  then have "sort (remdups (map srtm_name ?ps)) \<noteq> []" by (rule sort_remdups_nonempty)
  moreover have "zs = sort (remdups (map srtm_name ?ps))"
    using assms unfolding srtm_zone_cases by (simp split: if_splits)
  ultimately show ?thesis by simp
qed

lemma dem3_special_nonempty: "dem3_special lon_ran lat_ran reg = Some zs \<Longrightarrow> zs \<noteq> []"
  by (induction reg) (auto simp: dem3_inset_def split: if_splits)

lemma dem3_num_pos:
  assumes "0 < c"
  shows "0 < nat (\<lceil>fl (fl (np_max r - np_min r) / c)\<rceil> + 3)"
proof -
  have "0 \<le> fl (np_max r - np_min r)" using span_nonneg by (rule fl_nonneg)
  then have "0 \<le> fl (np_max r - np_min r) / c" using assms by simp
  then have "0 \<le> fl (fl (np_max r - np_min r) / c)" by (rule fl_nonneg)
  then have "0 \<le> \<lceil>fl (fl (np_max r - np_min r) / c)\<rceil>" by linarith
  then show ?thesis by linarith
qed

lemma dem3_viewpano_zone_nonempty: "dem3_viewpano_zone lon_ran lat_ran reg \<noteq> []"
proof (cases "dem3_special lon_ran lat_ran reg")
  case None
  have "linspace (np_min lon_ran) (np_max lon_ran)
          (nat (\<lceil>fl (fl (np_max lon_ran - np_min lon_ran) / 4)\<rceil> + 3)) \<noteq> []"
    by (rule linspace_nonempty) (rule dem3_num_pos, simp)
  moreover have "linspace (np_min lat_ran) (np_max lat_ran)
          (nat (\<lceil>fl (fl (np_max lat_ran - np_min lat_ran) / 6)\<rceil> + 3)) \<noteq> []"
    by (rule linspace_nonempty) (rule dem3_num_pos, simp)
  ultimately show ?thesis using None
    by (simp add: dem3_viewpano_zone_def Let_def sort_remdups_nonempty product_nonempty)
next
  case (Some zs)
  then show ?thesis using dem3_special_nonempty [OF Some] by (simp add: dem3_viewpano_zone_def)
qed

lemma aster_collect_lengths:
  "length (fst acc) = length (snd acc) \<Longrightarrow>
   length (fst (aster_collect ps acc)) = length (snd (aster_collect ps acc))"
  by (induction ps acc rule: aster_collect.induct) simp_all

lemma aster_collect_keeps: "fst acc \<noteq> [] \<Longrightarrow> fst (aster_collect ps acc) \<noteq> []"
  by (induction ps acc rule: aster_collect.induct) simp_all

lemma aster_collect_nonempty: "ps \<noteq> [] \<Longrightarrow> fst (aster_collect ps ([], [])) \<noteq> []"
  by (cases ps) (auto simp: aster_collect_keeps)

lemma aster_zone_nonempty:
  "zip (fst (aster_zone lon_ex lat_ex)) (snd (aster_zone lon_ex lat_ex)) \<noteq> []"
proof -
  let ?ps = "map aster_tile (List.product (densify lon_ex) (densify lat_ex))"
  have ne: "?ps \<noteq> []"
    using product_nonempty [OF densify_nonempty [of lon_ex] densify_nonempty [of lat_ex]] by simp
  have a: "fst (aster_zone lon_ex lat_ex) \<noteq> []"
    unfolding aster_zone_def using aster_collect_nonempty [OF ne] .
  have "length (fst (aster_zone lon_ex lat_ex)) = length (snd (aster_zone lon_ex lat_ex))"
    unfolding aster_zone_def by (rule aster_collect_lengths) simp
  then show ?thesis using a
    by (cases "fst (aster_zone lon_ex lat_ex)"; cases "snd (aster_zone lon_ex lat_ex)") simp_all
qed

lemma for_each_st_raises:
  assumes "zs \<noteq> []" "\<And>z w. f z w = (Inl TypeError, w)"
  shows "for_each_st f zs w = (Inl TypeError, w)"
  using assms by (cases zs) simp_all



lemma topo_tiles_no_tiles:
  assumes "topo_tiles lon_ex lat_ex source w = (Inr (s', t), w')"
  shows "t = None"
proof -
  have d: "for_each_st call_download_dem3_viewpano (dem3_viewpano_zone lon_ex lat_ex DEM3REG) v
             = (Inl TypeError, v)" for v
    by (rule for_each_st_raises [OF dem3_viewpano_zone_nonempty]) (simp add: call_download_dem3_viewpano_def)
  have a: "for_each_st (\<lambda>p. download_aster_file (fst p) (snd p))
             (zip (fst (aster_zone lon_ex lat_ex)) (snd (aster_zone lon_ex lat_ex))) v
             = (Inl TypeError, v)" for v
    by (rule for_each_st_raises [OF aster_zone_nonempty]) (simp add: download_aster_file_def)
  have s: "for_each_st call_download_srtm_file zs v = (Inl TypeError, v)"
    if "srtm_zone lon_ex lat_ex = Inr zs" for zs v
    by (rule for_each_st_raises [OF srtm_zone_nonempty [OF that]]) (simp add: call_download_srtm_file_def)
  show ?thesis
  proof (cases "np_min lat_ex < -60 \<or> np_max lat_ex > 60 \<or>
                source = SrcStr ''DEM3'' \<or> source = SrcStr ''ASTER''")
    case polar: True
    show ?thesis
    proof (cases "default_to ''DEM3'' source = SrcStr ''DEM3''")
      case True
      have "topo_tiles lon_ex lat_ex source w = (Inl TypeError, log_event CallDem3Zone w)"
        unfolding topo_tiles_def Let_def using polar True by (simp add: d)
      then show ?thesis using assms by simp
    next
      case nd: False
      show ?thesis
      proof (cases "default_to ''DEM3'' source = SrcStr ''ASTER''")
        case True
        have "topo_tiles lon_ex lat_ex source w = (Inl TypeError, log_event CallAsterZone w)"
          unfolding topo_tiles_def Let_def using polar nd True by (simp add: a)
        then show ?thesis using assms by simp
      next
        case False
        have "topo_tiles lon_ex lat_ex source w = (Inr (default_to ''DEM3'' source, None), w)"
          unfolding topo_tiles_def Let_def using polar nd False by simp
        then show ?thesis using assms by simp
      qed
    qed
  next
    case mid: False
    show ?thesis
    proof (cases "default_to ''SRTM'' source = SrcStr ''SRTM''")
      case True
      show ?thesis
      proof (cases "srtm_zone lon_ex lat_ex")
        case (Inl e)
        have "topo_tiles lon_ex lat_ex source w = (Inl e, log_event CallSrtmZone w)"
          unfolding topo_tiles_def Let_def using mid True Inl by simp
        then show ?thesis using assms by simp
      next
        case (Inr zs)
        have "topo_tiles lon_ex lat_ex source w = (Inl TypeError, log_event CallSrtmZone w)"
          unfolding topo_tiles_def Let_def using mid True Inr by (simp add: s [OF Inr])
        then show ?thesis using assms by simp
      qed
    next
      case False
      have "topo_tiles lon_ex lat_ex source w = (Inr (default_to ''SRTM'' source, None), w)"
        unfolding topo_tiles_def Let_def using mid False by simp
      then show ?thesis using assms by simp
    qed
  qed
qed

lemma topo_tail_returns:
  assumes "(case topo_tiles lon_ex lat_ex source w of
              (Inl e, w1) \<Rightarrow> (Inl e, w1)
            | (Inr (source, tiles), w1) \<Rightarrow>
                if source = SrcStr ''ETOPO1'' then
                  (if path_exists w1 (path_join topodir ''ETOPO1_Ice_g_geotiff.tif'')
                   then (Inr (Some (path_join topodir ''ETOPO1_Ice_g_geotiff.tif''), ''ETOPO1''), w1)
                   else (Inl AssertionError, w1))
                else
                  (case tiles of
                     None \<Rightarrow> (Inl UnboundLocalError, w1)
                   | Some t \<Rightarrow> topo_resolve env topodir t w1)) = (Inr (f, s), w')"
  shows "s = ''ETOPO1''"
proof -
  obtain r w1 where tt: "topo_tiles lon_ex lat_ex source w = (r, w1)"
    by (cases "topo_tiles lon_ex lat_ex source w")
  show ?thesis
  proof (cases r)
    case (Inl e)
    then show ?thesis using assms tt by simp
  next
    case (Inr p)
    obtain s' t where p: "p = (s', t)" by (cases p)
    have "t = None" using topo_tiles_no_tiles tt Inr p by blast
    then show ?thesis using assms tt Inr p by (simp add: Let_def split: if_splits)
  qed
qed

text \<open>
  No resolution through tiles ever returns: every zone list is non-empty, so the first
  download call raises. A call of the body of \<open>get_topo_file\<close> that returns has answered
  with the user's DEM file or with the ETOPO1 file.
\<close>

lemma get_topo_file_body_returns:
  assumes "get_topo_file_body env lon_ex lat_ex rgi_region source w = (Inr (f, s), w')"
  shows "s = ''USER'' \<or> s = ''ETOPO1''"
  using assms
  unfolding get_topo_file_body_def Let_def download_alternate_topo_file_def
  by (simp split: if_splits option.splits) (drule topo_tail_returns, simp)+

lemma get_topo_file_srtm_raises:
  assumes "srtm_zone lon_ex lat_ex = Inr (z # zs)"
      and "- 60 \<le> np_min lat_ex" "np_max lat_ex \<le> 60"
      and "\<not> user_dem_configured env w" "PATHS env ''topo_dir'' = Some topodir"
  shows "fst (get_topo_file env lon_ex lat_ex None SrcNone w) = Inl TypeError"
  using assms
  by (auto simp: get_topo_file_def get_topo_file_body_def user_dem_configured_def
                 topo_tiles_def default_to_def Let_def call_download_srtm_file_def
           split: option.splits)

text \<open>
  Claim C1, which the code breaks. The tile functions themselves do return \<open>None\<close> on a
  404 (\<open>tile_download_not_found\<close>), but \<open>get_topo_file\<close> never gets that far
  (\<open>get_topo_file_body_returns\<close>): it calls
  \<open>download_srtm_file(z)\<close> and \<open>download_dem3_viewpano(z)\<close> without the \<open>outdir\<close> argument
  that both declare. For the extent \<open>lon = [9, 12]\<close>, \<open>lat = [46, 47]\<close> the zones are
  \<open>38_03\<close> and \<open>39_03\<close>; with a server that answers 404 and the tile \<open>39_03\<close> in the cache,
  the tile functions give absence for the first and the cached file for the second,
  and the resolution, which the claim says succeeds, ends in \<open>TypeError\<close>.
\<close>

theorem get_topo_file_tile_calls_raise:
  "srtm_zone (9, 12) (46, 47) = Inr [''38_03'', ''39_03''] \<and>
   fst (download_srtm_file ''38_03'' ''/topo/srtm''
          (constant_world [(''/topo/srtm/srtm_39_03.zip'', Zip [''srtm_39_03.tif'']),
                           (''/topo/srtm/srtm_39_03.tif'', Raw)] (HTTPErr 404))) = Inr None \<and>
   fst (download_srtm_file ''39_03'' ''/topo/srtm''
          (constant_world [(''/topo/srtm/srtm_39_03.zip'', Zip [''srtm_39_03.tif'']),
                           (''/topo/srtm/srtm_39_03.tif'', Raw)] (HTTPErr 404)))
     = Inr (Some ''/topo/srtm/srtm_39_03.tif'') \<and>
   fst (get_topo_file example_env (9, 12) (46, 47) None SrcNone
          (constant_world [(''/topo/srtm/srtm_39_03.zip'', Zip [''srtm_39_03.tif'']),
                           (''/topo/srtm/srtm_39_03.tif'', Raw)] (HTTPErr 404))) = Inl TypeError"
proof (intro conjI)
  show "srtm_zone (9, 12) (46, 47) = Inr [''38_03'', ''39_03'']" by (rule srtm_zone_9_12)
  show "fst (download_srtm_file ''38_03'' ''/topo/srtm''
          (constant_world [(''/topo/srtm/srtm_39_03.zip'', Zip [''srtm_39_03.tif'']),
                           (''/topo/srtm/srtm_39_03.tif'', Raw)] (HTTPErr 404))) = Inr None"
    by code_simp
  show "fst (download_srtm_file ''39_03'' ''/topo/srtm''
          (constant_world [(''/topo/srtm/srtm_39_03.zip'', Zip [''srtm_39_03.tif'']),
                           (''/topo/srtm/srtm_39_03.tif'', Raw)] (HTTPErr 404)))
     = Inr (Some ''/topo/srtm/srtm_39_03.tif'')"
    by code_simp
  show "fst (get_topo_file example_env (9, 12) (46, 47) None SrcNone
          (constant_world [(''/topo/srtm/srtm_39_03.zip'', Zip [''srtm_39_03.tif'']),
                           (''/topo/srtm/srtm_39_03.tif'', Raw)] (HTTPErr 404))) = Inl TypeError"
    by (rule get_topo_file_srtm_raises [OF srtm_zone_9_12])
       (simp_all add: np_min_def np_max_def user_dem_configured_def example_env_def)
qed

subsection \<open>Special regions of the lettered grid\<close>

lemma box_arith:
  fixes p q r s :: rat
  assumes "p \<le> q" "r \<le> s" "x0 \<le> p" "q \<le> x1" "y0 \<le> r" "s \<le> y1"
      and "x1 < u0 \<or> u1 < x0 \<or> y1 < v0 \<or> v1 < y0"
  shows "\<not> (u0 \<le> p \<and> q \<le> u1 \<and> v0 \<le> r \<and> s \<le> v1)"
  using assms by linarith

lemma in_box_disjoint:
  assumes "in_box lon_ran lat_ran b1" "boxes_disjoint b1 b2"
  shows "in_box lon_ran lat_ran b2 = False"
proof -
  have m: "np_min lon_ran \<le> np_max lon_ran" "np_min lat_ran \<le> np_max lat_ran"
    using span_nonneg [of lon_ran] span_nonneg [of lat_ran] by simp_all
  obtain x0 x1 y0 y1 where b1: "b1 = (x0, x1, y0, y1)" by (cases b1)
  obtain u0 u1 v0 v1 where b2: "b2 = (u0, u1, v0, v1)" by (cases b2)
  have d: "x1 < u0 \<or> u1 < x0 \<or> y1 < v0 \<or> v1 < y0"
    using assms(2) unfolding b1 b2 boxes_disjoint_def by simp
  have i: "x0 \<le> np_min lon_ran" "np_max lon_ran \<le> x1" "y0 \<le> np_min lat_ran" "np_max lat_ran \<le> y1"
    using assms(1) unfolding b1 in_box_def by simp_all
  have "\<not> (u0 \<le> np_min lon_ran \<and> np_max lon_ran \<le> u1 \<and> v0 \<le> np_min lat_ran \<and> np_max lat_ran \<le> v1)"
    using m i d by (rule box_arith)
  then show ?thesis unfolding b2 in_box_def by simp
qed

lemma dem3reg_cases:
  assumes "(f, b) \<in> set DEM3REG"
  shows "(f, b) = (''ISL'', (-25, -12, 63, 67)) \<or> (f, b) = (''SVALBARD'', (10, 34, 76, 81)) \<or>
         (f, b) = (''JANMAYEN'', (-10, -7, 70, 72)) \<or> (f, b) = (''FJ'', (36, 66, 79, 82)) \<or>
         (f, b) = (''FAR'', (-8, -6, 61, 63)) \<or> (f, b) = (''BEAR'', (18, 20, 74, 75)) \<or>
         (f, b) = (''SHL'', (-3, 0, 60, 61))"
  using assms unfolding DEM3REG_def set_simps insert_iff empty_iff by (simp only: simp_thms)

lemma dem3reg_region_1:
  assumes "in_box lon_ran lat_ran (-25, -12, 63, 67)"
  shows "dem3_special lon_ran lat_ran DEM3REG = Some [''ISL'']"
  using assms
  by (simp add: DEM3REG_def dem3_inset_def in_box_disjoint [OF assms] boxes_disjoint_def)

lemma dem3reg_region_2:
  assumes "in_box lon_ran lat_ran (10, 34, 76, 81)"
  shows "dem3_special lon_ran lat_ran DEM3REG = Some [''SVALBARD'']"
  using assms
  by (simp add: DEM3REG_def dem3_inset_def in_box_disjoint [OF assms] boxes_disjoint_def)

lemma dem3reg_region_3:
  assumes "in_box lon_ran lat_ran (-10, -7, 70, 72)"
  shows "dem3_special lon_ran lat_ran DEM3REG = Some [''JANMAYEN'']"
  using assms
  by (simp add: DEM3REG_def dem3_inset_def in_box_disjoint [OF assms] boxes_disjoint_def)

lemma dem3reg_region_4:
  assumes "in_box lon_ran lat_ran (36, 66, 79, 82)"
  shows "dem3_special lon_ran lat_ran DEM3REG = Some [''FJ'']"
  using assms
  by (simp add: DEM3REG_def dem3_inset_def in_box_disjoint [OF assms] boxes_disjoint_def)

lemma dem3reg_region_5:
  assumes "in_box lon_ran lat_ran (-8, -6, 61, 63)"
  shows "dem3_special lon_ran lat_ran DEM3REG = Some [''FAR'']"
  using assms
  by (simp add: DEM3REG_def dem3_inset_def in_box_disjoint [OF assms] boxes_disjoint_def)

lemma dem3reg_region_6:
  assumes "in_box lon_ran lat_ran (18, 20, 74, 75)"
  shows "dem3_special lon_ran lat_ran DEM3REG = Some [''BEAR'']"
  using assms
  by (simp add: DEM3REG_def dem3_inset_def in_box_disjoint [OF assms] boxes_disjoint_def)

lemma dem3reg_region_7:
  assumes "in_box lon_ran lat_ran (-3, 0, 60, 61)"
  shows "dem3_special lon_ran lat_ran DEM3REG = Some [''SHL'']"
  using assms
  by (simp add: DEM3REG_def dem3_inset_def in_box_disjoint [OF assms] boxes_disjoint_def)

lemma dem3reg_region_aux:
  assumes "in_box lon_ran lat_ran b" "(f, b) \<in> set DEM3REG"
  shows "dem3_special lon_ran lat_ran DEM3REG = Some [f]"
  using dem3reg_cases [OF assms(2)] assms(1)
        dem3reg_region_1 dem3reg_region_2 dem3reg_region_3 dem3reg_region_4
        dem3reg_region_5 dem3reg_region_6 dem3reg_region_7
  by (elim disjE) (simp_all only: prod.inject)

lemma dem3reg_region:
  assumes "(f, b) \<in> set DEM3REG" "in_box lon_ran lat_ran b"
  shows "dem3_viewpano_zone lon_ran lat_ran DEM3REG = [f]"
  using dem3reg_region_aux [OF assms(2,1)] by (simp add: dem3_viewpano_zone_def)

text \<open>
  Claim C6, as the code has it. When some region of the table passed as \<open>extra_reg\<close>
  contains the extent, \<open>dem3_viewpano_zone\<close> returns at once, without the generic
  arithmetic: the list of the first inset box, in the order of the \<open>if/elif\<close> chain,
  that contains the extent, and otherwise the key of the first region that contains it.
  With the table \<open>DEM3REG\<close> of the module no inset box meets a region and the regions do
  not meet each other, so the result is the key of the region.
\<close>

theorem dem3_special_region_first_match:
  "(find (\<lambda>e. in_box lon_ran lat_ran (snd e)) extra_reg = Some (f, b) \<longrightarrow>
      dem3_viewpano_zone lon_ran lat_ran extra_reg =
        (if in_box lon_ran lat_ran (-91, -90, -72, -68) then [''SR15'']
         else if in_box lon_ran lat_ran (-47, -43, -61, -60) then [''SP23'']
         else if in_box lon_ran lat_ran (162, 165, -68, -66) then [''SQ58'']
         else if in_box lon_ran lat_ran (-66, -60, 80, 83) then [''U20'']
         else if in_box lon_ran lat_ran (-60, -54, 80, 83) then [''U21'']
         else if in_box lon_ran lat_ran (-54, -48, 80, 83) then [''U22'']
         else [f])) \<and>
   ((f, b) \<in> set DEM3REG \<and> in_box lon_ran lat_ran b \<longrightarrow>
      dem3_viewpano_zone lon_ran lat_ran DEM3REG = [f])"
proof (intro conjI impI)
  assume "find (\<lambda>e. in_box lon_ran lat_ran (snd e)) extra_reg = Some (f, b)"
  then have "dem3_special lon_ran lat_ran extra_reg = Some (dem3_inset lon_ran lat_ran f)"
    by (induction extra_reg) (auto split: if_splits)
  then show "dem3_viewpano_zone lon_ran lat_ran extra_reg =
        (if in_box lon_ran lat_ran (-91, -90, -72, -68) then [''SR15'']
         else if in_box lon_ran lat_ran (-47, -43, -61, -60) then [''SP23'']
         else if in_box lon_ran lat_ran (162, 165, -68, -66) then [''SQ58'']
         else if in_box lon_ran lat_ran (-66, -60, 80, 83) then [''U20'']
         else if in_box lon_ran lat_ran (-60, -54, 80, 83) then [''U21'']
         else if in_box lon_ran lat_ran (-54, -48, 80, 83) then [''U22'']
         else [f])"
    by (simp add: dem3_viewpano_zone_def dem3_inset_def)
next
  assume a: "(f, b) \<in> set DEM3REG \<and> in_box lon_ran lat_ran b"
  then show "dem3_viewpano_zone lon_ran lat_ran DEM3REG = [f]"
    using dem3reg_region by blast
qed

text \<open>
  Against claim C6 as stated: the inset boxes of \<open>U20\<close> and \<open>U21\<close> share the meridian
  \<open>-60\<close>. An extent on it, inside a region, lies in the box of \<open>U21\<close> and does not get
  \<open>['U21']\<close>: the test for \<open>U20\<close> comes first.
\<close>

theorem dem3_inset_overlap_counterexample:
  "in_box (-60, -60) (81, 82) (-78, -11, 75, 84) \<and>
   in_box (-60, -60) (81, 82) (-60, -54, 80, 83) \<and>
   dem3_viewpano_zone (-60, -60) (81, 82) [(''GL-North'', (-78, -11, 75, 84))] \<noteq> [''U21'']"
  by (simp add: in_box_def np_min_def np_max_def dem3_viewpano_zone_def dem3_inset_def)

theorem dem3_special_region_first_match_witness:
  "dem3_viewpano_zone (-58, -56) (81, 82) [(''GL-North'', (-78, -11, 75, 84))] = [''U21''] \<and>
   dem3_viewpano_zone (-20, -19) (64, 65) DEM3REG = [''ISL'']"
proof -
  have 1: "find (\<lambda>e. in_box (-58, -56) (81, 82) (snd e)) [(''GL-North'', (-78, -11, 75, 84))]
             = Some (''GL-North'', (-78, -11, 75, 84))"
    by (simp add: in_box_def np_min_def np_max_def)
  have 2: "(''ISL'', (-25, -12, 63, 67)) \<in> set DEM3REG \<and> in_box (-20, -19) (64, 65) (-25, -12, 63, 67)"
    by (simp add: DEM3REG_def in_box_def np_min_def np_max_def)
  show ?thesis
    using dem3_special_region_first_match [of "(-58, -56)" "(81, 82)" "[(''GL-North'', (-78, -11, 75, 84))]"
            "''GL-North''" "(-78, -11, 75, 84)"]
          dem3_special_region_first_match [of "(-20, -19)" "(64, 65)" "[]" "''ISL''" "(-25, -12, 63, 67)"]
          1 2
    by (simp add: in_box_def np_min_def np_max_def)
qed

end
